theory Spec2Isabelle
  imports Complex_Main
begin

section \<open>Values of the query tree\<close>

text \<open>
  The engine of \<^verbatim>\<open>src/query.ts\<close> consumes the tree built by the SQL parser. A row
  is an array of strings. A string is a list of characters, each standing for one
  code unit below 256. A literal of the query is a string, a number or a boolean.
  A number is a double; \<open>VNumber n\<close> is the double whose value is the integer
  \<open>n\<close>.
  A tree node is one of the parser's objects; a property the object does not have
  reads as \<^verbatim>\<open>undefined\<close>, which is \<open>None\<close> here. \<open>Other\<close> is any value of the
  parser with none of the properties the engine reads (what it puts for a missing
  \<^verbatim>\<open>WHERE\<close>, another kind of node). \<open>Undefined\<close> is the value \<^verbatim>\<open>undefined\<close> itself,
  a missing operand: reading a property of it throws a \<^verbatim>\<open>TypeError\<close>.
\<close>

type_synonym row = "string list"

datatype literal = VString string | VNumber int | VBoolean bool

datatype node =
    BinaryExpr string node node
  | FunctionExpr string node node
  | ColumnRef string
  | Literal literal
  | Other
  | Undefined

text \<open>\<^verbatim>\<open>left.column\<close> and \<^verbatim>\<open>right.value\<close>.\<close>

fun column_of :: "node \<Rightarrow> string option" where
  "column_of (ColumnRef c) = Some c"
| "column_of _ = None"

fun value_of :: "node \<Rightarrow> literal option" where
  "value_of (Literal v) = Some v"
| "value_of _ = None"

datatype error =
    UnsupportedQueryType string
  | UnsupportedOperator "string option"
  | RowShapeMismatch nat
  | InvalidVersionOperand string
  | TypeError
  | SyntaxError
  | UnmodelledRegExp
  | UnmodelledResult

type_synonym op_result = "error + row option"

section \<open>Array and string builtins\<close>

text \<open>\<^verbatim>\<open>header.findIndex(p)\<close>: the first index whose element satisfies \<open>p\<close>, else \<open>-1\<close>.\<close>

fun findIndexFrom :: "int \<Rightarrow> ('a \<Rightarrow> bool) \<Rightarrow> 'a list \<Rightarrow> int" where
  "findIndexFrom i p [] = -1"
| "findIndexFrom i p (x # xs) = (if p x then i else findIndexFrom (i + 1) p xs)"

definition findIndex :: "('a \<Rightarrow> bool) \<Rightarrow> 'a list \<Rightarrow> int" where
  "findIndex p xs = findIndexFrom 0 p xs"

text \<open>\<^verbatim>\<open>data[column]\<close>: an index outside the array reads \<^verbatim>\<open>undefined\<close>.\<close>

definition field_at :: "'a list \<Rightarrow> int \<Rightarrow> 'a option" where
  "field_at data column =
     (if 0 \<le> column \<and> column < int (length data) then Some (data ! nat column) else None)"

text \<open>\<^verbatim>\<open>String(x)\<close> of a field read and of a literal.\<close>

definition string_of_field :: "string option \<Rightarrow> string" where
  "string_of_field f = (case f of None \<Rightarrow> ''undefined'' | Some s \<Rightarrow> s)"

definition digit_char :: "nat \<Rightarrow> char" where
  "digit_char d = char_of (48 + d)"

fun string_of_nat :: "nat \<Rightarrow> string" where
  "string_of_nat n =
     (if n < 10 then [digit_char n] else string_of_nat (n div 10) @ [digit_char (n mod 10)])"

declare string_of_nat.simps [simp del]

definition string_of_int :: "int \<Rightarrow> string" where
  "string_of_int i = (if i < 0 then CHR ''-'' # string_of_nat (nat (- i)) else string_of_nat (nat i))"

definition string_of_value :: "literal option \<Rightarrow> string" where
  "string_of_value v =
     (case v of
        None \<Rightarrow> ''undefined''
      | Some (VString s) \<Rightarrow> s
      | Some (VNumber n) \<Rightarrow> string_of_int n
      | Some (VBoolean b) \<Rightarrow> (if b then ''true'' else ''false''))"

text \<open>
  The numbers that \<^verbatim>\<open>parseInt\<close> returns: \<^verbatim>\<open>NaN\<close>, the two infinities, and the
  doubles with an integer value. An integer becomes the nearest double: below
  \<open>2 ^ 53\<close> it is kept, above it is rounded to 53 significant bits, a tie going
  to the even neighbour, and from \<open>2 ^ 1024\<close> on the result is infinite.
\<close>

datatype js_number = NaN | Finite int | PlusInfinity | MinusInfinity

fun bit_length :: "nat \<Rightarrow> nat" where
  "bit_length n = (if n = 0 then 0 else Suc (bit_length (n div 2)))"

declare bit_length.simps [simp del]

definition round_to_double :: "nat \<Rightarrow> nat" where
  "round_to_double n =
     (if n < 2 ^ 53 then n
      else
        (let e = bit_length n - 53;
             q = n div 2 ^ e;
             r = n mod 2 ^ e;
             half = 2 ^ (e - 1)
         in (if half < r \<or> (r = half \<and> odd q) then q + 1 else q) * 2 ^ e))"

definition number_of_int :: "int \<Rightarrow> js_number" where
  "number_of_int i =
     (let m = round_to_double (nat \<bar>i\<bar>)
      in if 2 ^ 1024 \<le> m then (if i < 0 then MinusInfinity else PlusInfinity)
         else Finite (if i < 0 then - int m else int m))"

text \<open>
  \<^verbatim>\<open>parseInt(s, 10)\<close>: leading white space is skipped, one sign is read, then the
  longest run of decimal digits; no digit gives \<^verbatim>\<open>NaN\<close>. What follows the digits
  is ignored. The integer that the digits write is returned as a double.
\<close>

definition is_white_space :: "char \<Rightarrow> bool" where
  "is_white_space c = (of_char c \<in> {9, 10, 11, 12, 13, 32, 160 :: nat})"

definition is_digit :: "char \<Rightarrow> bool" where
  "is_digit c = (48 \<le> (of_char c :: nat) \<and> (of_char c :: nat) \<le> 57)"

definition digit_value :: "char \<Rightarrow> int" where
  "digit_value c = int (of_char c) - 48"

definition digits_value :: "string \<Rightarrow> int" where
  "digits_value ds = foldl (\<lambda>acc c. 10 * acc + digit_value c) 0 ds"

definition parseInt :: "string option \<Rightarrow> js_number" where
  "parseInt f =
     (let s = dropWhile is_white_space (string_of_field f);
          negative = (s \<noteq> [] \<and> hd s = CHR ''-'');
          s1 = (if s \<noteq> [] \<and> (hd s = CHR ''+'' \<or> hd s = CHR ''-'') then tl s else s);
          z = takeWhile is_digit s1
      in if z = [] then NaN
         else number_of_int (if negative then - digits_value z else digits_value z))"

definition startsWith :: "string \<Rightarrow> string \<Rightarrow> bool" where
  "startsWith s p = (take (length p) s = p)"

definition endsWith :: "string \<Rightarrow> string \<Rightarrow> bool" where
  "endsWith s p = (length p \<le> length s \<and> drop (length s - length p) s = p)"

section \<open>Regular expressions\<close>

text \<open>
  \<^verbatim>\<open>new RegExp(source)\<close> and \<^verbatim>\<open>reg.test(s)\<close> are builtins of the language. They
  are modelled on the part of the pattern syntax made of characters, \<^verbatim>\<open>.\<close>,
  \<^verbatim>\<open>^\<close>, \<^verbatim>\<open>$\<close>, groups, \<^verbatim>\<open>|\<close>, the quantifiers \<^verbatim>\<open>*\<close>, \<^verbatim>\<open>+\<close>, \<^verbatim>\<open>?\<close> (greedy or
  lazy), the groups \<^verbatim>\<open>(?:\<close> (a group is used for its extent only) and a
  backslash before a syntax character. Without the \<^verbatim>\<open>u\<close> flag \<^verbatim>\<open>]\<close> and
  \<^verbatim>\<open>}\<close> are characters like any other, and so is \<^verbatim>\<open>{\<close> where no braced
  quantifier starts. A source that leaves this part (a character class, a
  braced quantifier after an atom, a look-around, a named group or a group
  with modifiers, any other escape) is \<open>Unmodelled\<close>: the model says nothing
  about it. \<open>Invalid\<close> is the \<^verbatim>\<open>SyntaxError\<close> the constructor throws: a
  quantifier with nothing to repeat, a parenthesis without its partner, a
  \<^verbatim>\<open>(?\<close> that starts no group.
\<close>

datatype regex =
    Chr char
  | AnyChar
  | Bol
  | Eol
  | Empty
  | Seq regex regex
  | Alt regex regex
  | Star regex
  | Plus regex
  | Opt regex

datatype term_kind = Atom | Assertion | Quantified

datatype parse_result = Parsed regex | Invalid | Unmodelled

text \<open>The terms of the alternative being read, the last one first.\<close>

type_synonym terms = "(regex \<times> term_kind) list"

definition seq_regex :: "terms \<Rightarrow> regex" where
  "seq_regex ts = foldl (\<lambda>acc t. Seq (fst t) acc) Empty ts"

definition close_group :: "regex list \<Rightarrow> terms \<Rightarrow> regex" where
  "close_group alts ts = foldr Alt alts (seq_regex ts)"

definition is_syntax_char :: "char \<Rightarrow> bool" where
  "is_syntax_char c = (c = CHR 0x5C \<or> c \<in> set ''^$.*+?()[]{}|/'')"

text \<open>The text after a \<^verbatim>\<open>{\<close> reads \<^verbatim>\<open>n}\<close>, \<^verbatim>\<open>n,}\<close> or \<^verbatim>\<open>n,m}\<close>.\<close>

definition braced_quantifier :: "string \<Rightarrow> bool" where
  "braced_quantifier cs =
     (takeWhile is_digit cs \<noteq> [] \<and>
      (case dropWhile is_digit cs of
         [] \<Rightarrow> False
       | x # r \<Rightarrow>
           x = CHR ''}'' \<or>
           (x = CHR '','' \<and>
            (case dropWhile is_digit r of [] \<Rightarrow> False | y # r' \<Rightarrow> y = CHR ''}''))))"

definition quantify :: "char \<Rightarrow> regex \<Rightarrow> regex" where
  "quantify q r = (if q = CHR ''*'' then Star r else if q = CHR ''+'' then Plus r else Opt r)"

fun parse_regex ::
  "(regex list \<times> terms) list \<Rightarrow> regex list \<Rightarrow> terms \<Rightarrow> string \<Rightarrow> parse_result" where
  "parse_regex st alts ts [] = (if st = [] then Parsed (close_group alts ts) else Invalid)"
| "parse_regex st alts ts (c # cs) =
     (if c = CHR ''('' then
        (if cs \<noteq> [] \<and> hd cs = CHR ''?'' then
           (if tl cs = [] then Invalid
            else if hd (tl cs) = CHR '':'' then parse_regex ((alts, ts) # st) [] [] (tl (tl cs))
            else if hd (tl cs) \<in> set ''=!<ims-'' then Unmodelled
            else Invalid)
         else parse_regex ((alts, ts) # st) [] [] cs)
      else if c = CHR '')'' then
        (case st of
           [] \<Rightarrow> Invalid
         | (alts', ts') # st' \<Rightarrow> parse_regex st' alts' ((close_group alts ts, Atom) # ts') cs)
      else if c = CHR ''|'' then parse_regex st (alts @ [seq_regex ts]) [] cs
      else if c = CHR ''*'' \<or> c = CHR ''+'' \<or> c = CHR ''?'' then
        (case ts of
           (r, Atom) # ts' \<Rightarrow>
             (if cs \<noteq> [] \<and> hd cs = CHR ''?''
              then parse_regex st alts ((quantify c r, Quantified) # ts') (tl cs)
              else parse_regex st alts ((quantify c r, Quantified) # ts') cs)
         | _ \<Rightarrow> Invalid)
      else if c = CHR 0x5C then
        (case cs of
           [] \<Rightarrow> Invalid
         | e # cs' \<Rightarrow>
             (if is_syntax_char e then parse_regex st alts ((Chr e, Atom) # ts) cs'
              else Unmodelled))
      else if c = CHR ''['' then Unmodelled
      else if c = CHR ''{'' \<and> braced_quantifier cs then
        (case ts of (r, Atom) # ts' \<Rightarrow> Unmodelled | _ \<Rightarrow> Invalid)
      else if c = CHR ''^'' then parse_regex st alts ((Bol, Assertion) # ts) cs
      else if c = CHR ''$'' then parse_regex st alts ((Eol, Assertion) # ts) cs
      else if c = CHR ''.'' then parse_regex st alts ((AnyChar, Atom) # ts) cs
      else parse_regex st alts ((Chr c, Atom) # ts) cs)"

definition RegExp :: "string \<Rightarrow> parse_result" where
  "RegExp src = parse_regex [] [] [] src"

text \<open>
  Matching. \<open>ends r s i\<close> lists the positions where a match of \<open>r\<close> that starts at
  position \<open>i\<close> of \<open>s\<close> can end. Without flags \<^verbatim>\<open>.\<close> matches any character but a
  line terminator, \<^verbatim>\<open>^\<close> holds at the start of the input only and \<^verbatim>\<open>$\<close> at its
  end only. A repetition is followed as long as it moves forward, which takes at
  most as many rounds as characters are left.
\<close>

definition is_line_terminator :: "char \<Rightarrow> bool" where
  "is_line_terminator c = (c = CHR 0x0A \<or> c = CHR 0x0D)"

fun star_ends :: "(nat \<Rightarrow> nat list) \<Rightarrow> nat \<Rightarrow> nat \<Rightarrow> nat list" where
  "star_ends step 0 i = [i]"
| "star_ends step (Suc n) i =
     i # concat (map (star_ends step n) (filter (\<lambda>j. i < j) (step i)))"

primrec ends :: "regex \<Rightarrow> string \<Rightarrow> nat \<Rightarrow> nat list" where
  "ends (Chr c) s i = (if i < length s \<and> s ! i = c then [Suc i] else [])"
| "ends AnyChar s i = (if i < length s \<and> \<not> is_line_terminator (s ! i) then [Suc i] else [])"
| "ends Bol s i = (if i = 0 then [i] else [])"
| "ends Eol s i = (if i = length s then [i] else [])"
| "ends Empty s i = [i]"
| "ends (Seq a b) s i = remdups (concat (map (ends b s) (ends a s i)))"
| "ends (Alt a b) s i = remdups (ends a s i @ ends b s i)"
| "ends (Star r) s i = remdups (star_ends (ends r s) (length s - i) i)"
| "ends (Plus r) s i =
     remdups (concat (map (\<lambda>j. star_ends (ends r s) (length s - j) j) (ends r s i)))"
| "ends (Opt r) s i = remdups (i # ends r s i)"

text \<open>\<^verbatim>\<open>reg.test(s)\<close>: a match may start at any position.\<close>

definition regexp_test :: "regex \<Rightarrow> string \<Rightarrow> bool" where
  "regexp_test r s = list_ex (\<lambda>i. ends r s i \<noteq> []) [0..<Suc (length s)]"

section \<open>The predicate evaluator\<close>

text \<open>
  The \<^verbatim>\<open>semver\<close> package is not part of the repository: its four functions are
  parameters of the model. \<open>valid\<close> and \<open>validRange\<close> say whether the library's
  answer is not \<^verbatim>\<open>null\<close>, \<open>coerce\<close> likewise for a number.
\<close>

record semver_lib =
  valid :: "string \<Rightarrow> bool"
  validRange :: "string \<Rightarrow> bool"
  coerce :: "int \<Rightarrow> bool"
  satisfies :: "string \<Rightarrow> string \<Rightarrow> bool"

text \<open>
  \<^verbatim>\<open>SQLOperations[operator]\<close> reads a property of an object literal, so besides
  the six entries of the table it finds the members that every object inherits:
  \<^verbatim>\<open>constructor\<close> is the function \<^verbatim>\<open>Object\<close>, \<^verbatim>\<open>toString\<close> the inherited
  method of that name, and ten more names give a method that needs a receiver,
  or, for \<^verbatim>\<open>__proto__\<close>, an object that is no function. The code calls what it
  finds with \<^verbatim>\<open>(data, header, left, right)\<close> and no receiver.
\<close>

datatype operation =
    ExecuteNone | ExecuteEqual | ExecuteLike | ExecuteAnd | ExecuteOr | ExecuteSemver
  | ObjectConstructor | ObjectToString | ObjectMember

definition inherited_members :: "string list" where
  "inherited_members =
     [''toLocaleString'', ''valueOf'', ''hasOwnProperty'', ''isPrototypeOf'',
      ''propertyIsEnumerable'', ''__defineGetter__'', ''__defineSetter__'',
      ''__lookupGetter__'', ''__lookupSetter__'', ''__proto__'']"

definition SQLOperations :: "string \<Rightarrow> operation option" where
  "SQLOperations operator =
     (if operator = ''none'' then Some ExecuteNone
      else if operator = ''='' then Some ExecuteEqual
      else if operator = ''LIKE'' then Some ExecuteLike
      else if operator = ''AND'' then Some ExecuteAnd
      else if operator = ''OR'' then Some ExecuteOr
      else if operator = ''SEMVER'' then Some ExecuteSemver
      else if operator = ''constructor'' then Some ObjectConstructor
      else if operator = ''toString'' then Some ObjectToString
      else if operator \<in> set inherited_members then Some ObjectMember
      else None)"

text \<open>
  A name for which the lookup gives \<^verbatim>\<open>undefined\<close> ends the process: a fatal
  error here. A node without \<^verbatim>\<open>operator\<close> looks up the name \<^verbatim>\<open>undefined\<close>, which
  the object does not have.
\<close>

definition getOperation :: "string option \<Rightarrow> error + operation" where
  "getOperation operator =
     (case operator of
        None \<Rightarrow> Inl (UnsupportedOperator None)
      | Some k \<Rightarrow>
          (case SQLOperations k of
             None \<Rightarrow> Inl (UnsupportedOperator (Some k))
           | Some operation \<Rightarrow> Inr operation))"

definition executeNoneOperation :: "row \<Rightarrow> row \<Rightarrow> op_result" where
  "executeNoneOperation data header = Inr (Some data)"

text \<open>
  The three comparisons start with \<^verbatim>\<open>const {column: columnName} = left\<close> and
  \<^verbatim>\<open>const {value} = right\<close>, which throw a \<^verbatim>\<open>TypeError\<close> on an operand that is
  \<^verbatim>\<open>undefined\<close>. \<^verbatim>\<open>semver.valid\<close> answers \<^verbatim>\<open>null\<close> for a value that is not a
  string, so a field that reads \<^verbatim>\<open>undefined\<close> leaves at the first test.
\<close>

definition executeSemverOperation ::
  "semver_lib \<Rightarrow> row \<Rightarrow> row \<Rightarrow> node \<Rightarrow> node \<Rightarrow> op_result" where
  "executeSemverOperation sv data header left right =
     (if left = Undefined \<or> right = Undefined then Inl TypeError
      else
        (let columnName = column_of left;
             v = value_of right;
             column = findIndex (\<lambda>h. Some h = columnName) header
         in case field_at data column of
              None \<Rightarrow> Inr None
            | Some version \<Rightarrow>
                (if \<not> valid sv version then Inr None
                 else if (case v of
                            Some (VString s) \<Rightarrow> \<not> validRange sv s
                          | Some (VNumber n) \<Rightarrow> \<not> coerce sv n
                          | _ \<Rightarrow> False)
                 then Inl (InvalidVersionOperand (string_of_value v))
                 else if satisfies sv version (string_of_value v) then Inr (Some data)
                 else Inr None)))"

text \<open>
  \<^verbatim>\<open>transformedValue !== value\<close> compares without conversion; \<^verbatim>\<open>NaN\<close> and the
  infinities differ from every number literal.
\<close>

definition executeEqualOperation :: "row \<Rightarrow> row \<Rightarrow> node \<Rightarrow> node \<Rightarrow> op_result" where
  "executeEqualOperation data header left right =
     (if left = Undefined \<or> right = Undefined then Inl TypeError
      else
        (let columnName = column_of left;
             v = value_of right;
             column = findIndex (\<lambda>h. Some h = columnName) header;
             differs =
               (case v of
                  Some (VNumber n) \<Rightarrow> parseInt (field_at data column) \<noteq> Finite n
                | Some (VBoolean b) \<Rightarrow> (field_at data column = Some ''true'') \<noteq> b
                | Some (VString s) \<Rightarrow> field_at data column \<noteq> Some s
                | None \<Rightarrow> field_at data column \<noteq> None)
         in if differs then Inr None else Inr (Some data)))"

text \<open>\<^verbatim>\<open>value.replace(/%/g, '').replace(/\./g, '\\.')\<close>\<close>

definition escape_dots :: "string \<Rightarrow> string" where
  "escape_dots s = concat (map (\<lambda>c. if c = CHR ''.'' then [CHR 0x5C, CHR ''.''] else [c]) s)"

definition search_of :: "string \<Rightarrow> string" where
  "search_of v = escape_dots (filter (\<lambda>c. c \<noteq> CHR ''%'') v)"

text \<open>
  A right operand that is not a string has no \<^verbatim>\<open>startsWith\<close>: a \<^verbatim>\<open>TypeError\<close>,
  as for an operand that is \<^verbatim>\<open>undefined\<close>. \<^verbatim>\<open>reg.test\<close> converts its argument to
  a string.
\<close>

definition executeLikeOperation :: "row \<Rightarrow> row \<Rightarrow> node \<Rightarrow> node \<Rightarrow> op_result" where
  "executeLikeOperation data header left right =
     (if left = Undefined \<or> right = Undefined then Inl TypeError
      else
        (case value_of right of
           Some (VString v) \<Rightarrow>
             (let columnName = column_of left;
                  column = findIndex (\<lambda>h. Some h = columnName) header;
                  anyBegin = startsWith v ''%'';
                  anyEnd = endsWith v ''%'';
                  middleWith = (anyBegin \<and> anyEnd);
                  search = search_of v;
                  reg =
                    (if middleWith then Some (RegExp (''^.*('' @ search @ '').*$''))
                     else if anyBegin then Some (RegExp (''^.*('' @ search @ '')$''))
                     else if anyEnd then Some (RegExp (''^('' @ search @ '').*$''))
                     else None)
              in case reg of
                   None \<Rightarrow> Inr None
                 | Some Invalid \<Rightarrow> Inl SyntaxError
                 | Some Unmodelled \<Rightarrow> Inl UnmodelledRegExp
                 | Some (Parsed r) \<Rightarrow>
                     (if regexp_test r (string_of_field (field_at data column))
                      then Inr (Some data) else Inr None))
         | _ \<Rightarrow> Inl TypeError))"

text \<open>
  \<open>nodeOperation\<close> is the call
  \<^verbatim>\<open>getOperation(n.operator)(data, header, n.left, n.right)\<close> of the two combinators:
  a node without \<^verbatim>\<open>operator\<close> looks \<^verbatim>\<open>undefined\<close> up in the table.
  Of the inherited members, \<^verbatim>\<open>Object(data)\<close> is the array \<^verbatim>\<open>data\<close> itself; the
  methods that need a receiver throw a \<^verbatim>\<open>TypeError\<close> without one, as does the
  call of an object; and \<^verbatim>\<open>toString\<close> returns the text
  \<^verbatim>\<open>[object Undefined]\<close>, which is no row: the model has no value for it and
  stops there with \<open>UnmodelledResult\<close>.
\<close>

function callOperation ::
    "semver_lib \<Rightarrow> operation \<Rightarrow> row \<Rightarrow> row \<Rightarrow> node \<Rightarrow> node \<Rightarrow> op_result"
  and executeAndOperation :: "semver_lib \<Rightarrow> row \<Rightarrow> row \<Rightarrow> node \<Rightarrow> node \<Rightarrow> op_result"
  and executeOrOperation :: "semver_lib \<Rightarrow> row \<Rightarrow> row \<Rightarrow> node \<Rightarrow> node \<Rightarrow> op_result"
  and nodeOperation :: "semver_lib \<Rightarrow> row \<Rightarrow> row \<Rightarrow> node \<Rightarrow> op_result" where
  "callOperation sv operation data header left right =
     (case operation of
        ExecuteNone \<Rightarrow> executeNoneOperation data header
      | ExecuteEqual \<Rightarrow> executeEqualOperation data header left right
      | ExecuteLike \<Rightarrow> executeLikeOperation data header left right
      | ExecuteAnd \<Rightarrow> executeAndOperation sv data header left right
      | ExecuteOr \<Rightarrow> executeOrOperation sv data header left right
      | ExecuteSemver \<Rightarrow> executeSemverOperation sv data header left right
      | ObjectConstructor \<Rightarrow> Inr (Some data)
      | ObjectToString \<Rightarrow> Inl UnmodelledResult
      | ObjectMember \<Rightarrow> Inl TypeError)"
| "executeAndOperation sv data header left right =
     (case nodeOperation sv data header left of
        Inl e \<Rightarrow> Inl e
      | Inr None \<Rightarrow> Inr None
      | Inr (Some result) \<Rightarrow> nodeOperation sv result header right)"
| "executeOrOperation sv data header left right =
     (case nodeOperation sv data header left of
        Inl e \<Rightarrow> Inl e
      | Inr (Some resultA) \<Rightarrow> Inr (Some resultA)
      | Inr None \<Rightarrow> nodeOperation sv data header right)"
| "nodeOperation sv data header (BinaryExpr operator l r) =
     (case getOperation (Some operator) of
        Inl e \<Rightarrow> Inl e
      | Inr operation \<Rightarrow> callOperation sv operation data header l r)"
| "nodeOperation sv data header (FunctionExpr name a0 a1) = Inl (UnsupportedOperator None)"
| "nodeOperation sv data header (ColumnRef c) = Inl (UnsupportedOperator None)"
| "nodeOperation sv data header (Literal v) = Inl (UnsupportedOperator None)"
| "nodeOperation sv data header Other = Inl (UnsupportedOperator None)"
| "nodeOperation sv data header Undefined = Inl TypeError"
  by pat_completeness auto
termination
  by (relation "measure (\<lambda>x. case x of
        Inl (Inl (sv, operation, data, header, left, right)) \<Rightarrow> 3 * (size left + size right) + 2
      | Inl (Inr (sv, data, header, left, right)) \<Rightarrow> 3 * (size left + size right) + 1
      | Inr (Inl (sv, data, header, left, right)) \<Rightarrow> 3 * (size left + size right) + 1
      | Inr (Inr (sv, data, header, n)) \<Rightarrow> 3 * size n)") auto

section \<open>The query driver\<close>

text \<open>
  The parsed query. \<open>columns\<close> is \<open>None\<close> when the parser gives no array (a
  \<^verbatim>\<open>SELECT *\<close>). A selected column is a plain column or a call, an expression
  with a \<^verbatim>\<open>name\<close>, and has its alias in \<open>as\<close>. Of a call the source reads
  \<^verbatim>\<open>args.expr.value\<close> into a template string: \<open>CallColumn name v\<close> holds that
  value, \<open>None\<close> when the argument has no \<^verbatim>\<open>value\<close> (a column reference has a
  \<^verbatim>\<open>column\<close> instead) and the string shows \<^verbatim>\<open>undefined\<close>. The argument
  \<^verbatim>\<open>args.expr\<close> itself is taken to be there: a call whose \<^verbatim>\<open>args\<close> is a list of
  expressions makes that read throw, and is no value of this type. The two entries of \<open>limit\<close> hold \<^verbatim>\<open>undefined\<close> as
  \<open>None\<close>, and the source's defaults are \<open>0\<close> and \<open>10\<close>.
\<close>

datatype column_expr = PlainColumn string | CallColumn string "literal option"

record column =
  expr :: column_expr
  as :: "string option"

record query =
  qtype :: string
  columns :: "column list option"
  table :: string
  where_node :: node
  limit :: "nat option \<times> nat option"

record envelope =
  source :: string
  total_matches :: nat
  page :: nat
  pages :: int
  header :: "string option list"
  result :: "string option list list"

text \<open>The variables of \<^verbatim>\<open>executeQuery\<close> that the loop over the rows updates.\<close>

record scan =
  s_line :: nat
  s_total :: nat
  s_result :: "row list"
  s_shouldSetupHeader :: bool
  s_header :: row
  s_originalHeader :: row
  s_headerIndex :: "string \<rightharpoonup> nat"
  s_headerName :: "string \<rightharpoonup> string"

fun getColumnName :: "column \<Rightarrow> string" where
  "getColumnName c =
     (case expr c of
        CallColumn name v \<Rightarrow> name @ ''('' @ string_of_value v @ '')''
      | PlainColumn col \<Rightarrow> col)"

text \<open>\<^verbatim>\<open>column.as || getColumnName(column)\<close>: an empty alias counts as none.\<close>

definition displayName :: "column \<Rightarrow> string" where
  "displayName c =
     (case as c of
        None \<Rightarrow> getColumnName c
      | Some a \<Rightarrow> if a = [] then getColumnName c else a)"

text \<open>
  \<^verbatim>\<open>xs.reduce((value, x, index) => ({...value, [key x]: val x index}), {})\<close>: a later
  entry with the same key replaces the earlier one. The record is read as a map
  from its own keys; a column named like an inherited member of objects is not
  looked at here.
\<close>

definition reduce_record :: "('a \<Rightarrow> string) \<Rightarrow> ('a \<Rightarrow> nat \<Rightarrow> 'v) \<Rightarrow> 'a list \<Rightarrow> (string \<rightharpoonup> 'v)" where
  "reduce_record key val xs =
     foldl (\<lambda>m xi. m(key (fst xi) \<mapsto> val (fst xi) (snd xi))) Map.empty (zip xs [0..<length xs])"

definition setupHeader :: "query \<Rightarrow> scan \<Rightarrow> row \<Rightarrow> scan" where
  "setupHeader q st row =
     (case columns q of
        Some cols \<Rightarrow>
          st\<lparr>s_originalHeader := row,
             s_header := map getColumnName cols,
             s_headerIndex := reduce_record getColumnName (\<lambda>c index. index) cols,
             s_headerName := reduce_record getColumnName (\<lambda>c index. displayName c) cols,
             s_shouldSetupHeader := False\<rparr>
      | None \<Rightarrow>
          st\<lparr>s_originalHeader := row,
             s_header := row,
             s_headerIndex := reduce_record (\<lambda>c. c) (\<lambda>c index. index) row,
             s_headerName := reduce_record (\<lambda>c. c) (\<lambda>c index. c) row,
             s_shouldSetupHeader := False\<rparr>)"

text \<open>The body of the loop, for one row of the file.\<close>

definition loopBody ::
  "semver_lib \<Rightarrow> query \<Rightarrow> operation \<Rightarrow> node \<Rightarrow> node \<Rightarrow> nat \<Rightarrow> nat \<Rightarrow> nat \<Rightarrow> scan \<Rightarrow> row
     \<Rightarrow> error + scan" where
  "loopBody sv q operation left right lmt start endp st0 row =
     (let st = st0\<lparr>s_line := s_line st0 + 1\<rparr>
      in if s_shouldSetupHeader st then Inr (setupHeader q st row)
         else if length (s_originalHeader st) \<noteq> length row
         then Inl (RowShapeMismatch (s_line st))
         else
           (case callOperation sv operation row (s_originalHeader st) left right of
              Inl e \<Rightarrow> Inl e
            | Inr None \<Rightarrow> Inr st
            | Inr (Some data) \<Rightarrow>
                (if length (s_result st) = lmt \<or> (start \<noteq> 0 \<and> s_total st < start)
                    \<or> s_total st > endp
                 then Inr (st\<lparr>s_total := s_total st + 1\<rparr>)
                 else Inr (st\<lparr>s_total := s_total st + 1, s_result := s_result st @ [data]\<rparr>))))"

text \<open>\<^verbatim>\<open>for await (const row of readCSV(filePath))\<close>: a throw leaves the loop.\<close>

fun forEachRow :: "(scan \<Rightarrow> row \<Rightarrow> error + scan) \<Rightarrow> row list \<Rightarrow> scan \<Rightarrow> error + scan" where
  "forEachRow body [] st = Inr st"
| "forEachRow body (row # rows) st =
     (case body st row of
        Inl e \<Rightarrow> Inl e
      | Inr st' \<Rightarrow> forEachRow body rows st')"

text \<open>
  \<^verbatim>\<open>value[position] = column\<close> on an array: a position past the end lengthens the
  array, and the slots in between stay empty (\<open>None\<close>).
\<close>

definition array_set :: "'a option list \<Rightarrow> nat \<Rightarrow> 'a \<Rightarrow> 'a option list" where
  "array_set a position x =
     (if position < length a then a[position := Some x]
      else a @ replicate (position - length a) None @ [Some x])"

text \<open>
  The projection of one row of the page. \<^verbatim>\<open>originalHeader[index]\<close> past the end of
  the header is \<^verbatim>\<open>undefined\<close>, which as a key is the string \<^verbatim>\<open>undefined\<close>.
\<close>

definition keyAt :: "row \<Rightarrow> nat \<Rightarrow> string" where
  "keyAt originalHeader index = string_of_field (field_at originalHeader (int index))"

definition projectRow :: "(string \<rightharpoonup> nat) \<Rightarrow> row \<Rightarrow> row \<Rightarrow> string option list" where
  "projectRow headerIndex originalHeader row =
     foldl (\<lambda>v ci.
              (case headerIndex (keyAt originalHeader (snd ci)) of
                 None \<Rightarrow> v
               | Some position \<Rightarrow> array_set v position (fst ci)))
           [] (zip row [0..<length row])"

text \<open>
  The page count. \<^verbatim>\<open>total / limit\<close> is \<^verbatim>\<open>NaN\<close> or \<^verbatim>\<open>Infinity\<close> when the limit is
  \<open>0\<close>, neither an integer, and \<^verbatim>\<open>| 0\<close> turns both into \<open>0\<close>. \<^verbatim>\<open>x | 0\<close> drops the
  fraction of \<open>x\<close> and wraps the integer into 32 bits, signed. The two counts
  are integers that a double holds exactly; the rounded quotient of two such
  numbers is an integer only when the division is exact, and has the integer
  part of the exact quotient.
\<close>

definition toInt32 :: "int \<Rightarrow> int" where
  "toInt32 n = (n + 2 ^ 31) mod 2 ^ 32 - 2 ^ 31"

definition pagesOf :: "nat \<Rightarrow> nat \<Rightarrow> int" where
  "pagesOf tot lmt =
     (let pages =
            (if lmt = 0 then toInt32 0 + 1
             else if lmt dvd tot then int (tot div lmt)
             else toInt32 (int (tot div lmt)) + 1)
      in max 1 pages)"

text \<open>
  The choice of the operation and of its operands from the \<^verbatim>\<open>WHERE\<close> node: a node
  with an \<^verbatim>\<open>operator\<close>, a function call, or anything else, for which the operands
  stay \<^verbatim>\<open>undefined\<close>. \<^verbatim>\<open>query.where.operator\<close> throws when \<^verbatim>\<open>where\<close> is
  \<^verbatim>\<open>undefined\<close>.
\<close>

fun whereOperation :: "node \<Rightarrow> error + (operation \<times> node \<times> node)" where
  "whereOperation (BinaryExpr operator l r) =
     (case getOperation (Some operator) of
        Inl e \<Rightarrow> Inl e
      | Inr operation \<Rightarrow> Inr (operation, l, r))"
| "whereOperation (FunctionExpr name a0 a1) =
     (case getOperation (Some name) of
        Inl e \<Rightarrow> Inl e
      | Inr operation \<Rightarrow> Inr (operation, a0, a1))"
| "whereOperation Undefined = Inl TypeError"
| "whereOperation _ =
     (case getOperation (Some ''none'') of
        Inl e \<Rightarrow> Inl e
      | Inr operation \<Rightarrow> Inr (operation, Undefined, Undefined))"

text \<open>\<^verbatim>\<open>const [{value: offset = 0}, {value: limit = 10}] = query.limit\<close>\<close>

definition offsetOf :: "query \<Rightarrow> nat" where
  "offsetOf q = (case fst (limit q) of None \<Rightarrow> 0 | Some v \<Rightarrow> v)"

definition limitOf :: "query \<Rightarrow> nat" where
  "limitOf q = (case snd (limit q) of None \<Rightarrow> 10 | Some v \<Rightarrow> v)"

definition initialScan :: scan where
  "initialScan =
     \<lparr>s_line = 0, s_total = 0, s_result = [], s_shouldSetupHeader = True, s_header = [],
      s_originalHeader = [], s_headerIndex = Map.empty, s_headerName = Map.empty\<rparr>"

text \<open>
  \<open>filePath\<close> is \<^verbatim>\<open>path.join(cwd, table + '.csv')\<close> and \<open>csv\<close> the rows that
  \<^verbatim>\<open>readCSV(filePath)\<close> yields, the header first.
\<close>

definition executeQuery :: "semver_lib \<Rightarrow> query \<Rightarrow> string \<Rightarrow> row list \<Rightarrow> error + envelope" where
  "executeQuery sv q filePath csv =
     (if qtype q \<noteq> ''select'' then Inl (UnsupportedQueryType (qtype q))
      else
        (let offset = offsetOf q;
             lmt = limitOf q;
             start = offset * lmt;
             endp = start + lmt;
             pg = offset + 1
         in case whereOperation (where_node q) of
              Inl e \<Rightarrow> Inl e
            | Inr (operation, left, right) \<Rightarrow>
                (case forEachRow (loopBody sv q operation left right lmt start endp) csv initialScan of
                   Inl e \<Rightarrow> Inl e
                 | Inr st \<Rightarrow>
                     Inr \<lparr>source = filePath,
                          total_matches = s_total st,
                          page = pg,
                          pages = pagesOf (s_total st) lmt,
                          header = map (s_headerName st) (s_header st),
                          result = map (projectRow (s_headerIndex st) (s_originalHeader st))
                                       (s_result st)\<rparr>)))"

section \<open>What the claims speak about\<close>

text \<open>
  The predicate of a query on one row: the chosen operation accepts the row (it
  returns a row), or it raises a fatal error. A file is well formed for a query
  when each data row has as many fields as the header and the predicate raises
  on none of them.
\<close>

definition accepts :: "semver_lib \<Rightarrow> operation \<Rightarrow> node \<Rightarrow> node \<Rightarrow> row \<Rightarrow> row \<Rightarrow> bool" where
  "accepts sv operation left right h row =
     (case callOperation sv operation row h left right of Inr (Some d) \<Rightarrow> True | _ \<Rightarrow> False)"

definition raises :: "semver_lib \<Rightarrow> operation \<Rightarrow> node \<Rightarrow> node \<Rightarrow> row \<Rightarrow> row \<Rightarrow> bool" where
  "raises sv operation left right h row =
     (case callOperation sv operation row h left right of Inl e \<Rightarrow> True | _ \<Rightarrow> False)"

definition wellFormed ::
  "semver_lib \<Rightarrow> operation \<Rightarrow> node \<Rightarrow> node \<Rightarrow> row \<Rightarrow> row list \<Rightarrow> bool" where
  "wellFormed sv operation left right h rows =
     list_all (\<lambda>row. length row = length h \<and> \<not> raises sv operation left right h row) rows"

text \<open>
  \<^verbatim>\<open>data[column]\<close> for the column that the left operand names, and the tests of the
  version operation on it and on the right operand.
\<close>

definition fieldUnder :: "row \<Rightarrow> row \<Rightarrow> node \<Rightarrow> string option" where
  "fieldUnder data h left = field_at data (findIndex (\<lambda>c. Some c = column_of left) h)"

definition invalidOperand :: "semver_lib \<Rightarrow> literal option \<Rightarrow> bool" where
  "invalidOperand sv v =
     (case v of
        Some (VString s) \<Rightarrow> \<not> validRange sv s
      | Some (VNumber n) \<Rightarrow> \<not> coerce sv n
      | _ \<Rightarrow> False)"

definition validField :: "semver_lib \<Rightarrow> string option \<Rightarrow> bool" where
  "validField sv f = (case f of None \<Rightarrow> False | Some s \<Rightarrow> valid sv s)"

text \<open>
  A node as the predicate of a query of its own, on one row: the operation and
  the operands that \<^verbatim>\<open>executeQuery\<close> takes from it, called as its loop calls
  them. The node matches the row alone when this returns a row.
\<close>

definition predicateResult :: "semver_lib \<Rightarrow> row \<Rightarrow> row \<Rightarrow> node \<Rightarrow> op_result" where
  "predicateResult sv data h p =
     (case whereOperation p of
        Inl e \<Rightarrow> Inl e
      | Inr (operation, left, right) \<Rightarrow> callOperation sv operation data h left right)"

definition matchesAlone :: "semver_lib \<Rightarrow> row \<Rightarrow> row \<Rightarrow> node \<Rightarrow> bool" where
  "matchesAlone sv data h p =
     (case predicateResult sv data h p of Inr (Some d) \<Rightarrow> True | _ \<Rightarrow> False)"

text \<open>
  The characters with a meaning in a pattern, the dot apart (the code escapes the
  dot), and the regular expression of a text read character by character.
\<close>

definition is_special :: "char \<Rightarrow> bool" where
  "is_special c = (c = CHR 0x5C \<or> c \<in> set ''^$*+?()[]{}|'')"

fun literal_regex :: "string \<Rightarrow> regex" where
  "literal_regex [] = Empty"
| "literal_regex (c # cs) = Seq (Chr c) (literal_regex cs)"

text \<open>
  What \<^verbatim>\<open>LIKE\<close> computes on a pattern without such characters: the body occurs
  in the field at a position, with no line terminator in the part of the field
  that \<^verbatim>\<open>.*\<close> has to cover.
\<close>

definition no_terminator :: "string \<Rightarrow> bool" where
  "no_terminator s = list_all (\<lambda>c. \<not> is_line_terminator c) s"

definition occurs_at :: "string \<Rightarrow> string \<Rightarrow> nat \<Rightarrow> bool" where
  "occurs_at body f n = (take (length body) (drop n f) = body)"

definition likeMatches :: "string \<Rightarrow> string \<Rightarrow> bool" where
  "likeMatches v f =
     (let body = filter (\<lambda>c. c \<noteq> CHR ''%'') v
      in if startsWith v ''%'' \<and> endsWith v ''%''
         then list_ex (\<lambda>n. occurs_at body f n \<and> no_terminator (take n f)
                \<and> no_terminator (drop (n + length body) f)) [0..<Suc (length f)]
         else if startsWith v ''%''
         then length body \<le> length f \<and> occurs_at body f (length f - length body)
                \<and> no_terminator (take (length f - length body) f)
         else if endsWith v ''%''
         then occurs_at body f 0 \<and> no_terminator (drop (length body) f)
         else False)"

text \<open>
  \<^verbatim>\<open>LIKE\<close> in the words of the specification: a pattern within two \<^verbatim>\<open>%\<close> asks
  for a field that contains the body, a pattern that ends with \<^verbatim>\<open>%\<close> for a field
  that starts with it, a pattern that starts with \<^verbatim>\<open>%\<close> for a field that ends
  with it, and a pattern without \<^verbatim>\<open>%\<close> at either end matches nothing.
\<close>

definition contains_text :: "string \<Rightarrow> string \<Rightarrow> bool" where
  "contains_text f body = list_ex (\<lambda>n. occurs_at body f n) [0..<Suc (length f)]"

definition specLike :: "string \<Rightarrow> string \<Rightarrow> bool" where
  "specLike v f =
     (let body = filter (\<lambda>c. c \<noteq> CHR ''%'') v
      in if startsWith v ''%'' \<and> endsWith v ''%'' then contains_text f body
         else if endsWith v ''%'' then startsWith f body
         else if startsWith v ''%'' then endsWith f body
         else False)"

text \<open>The position map and the display header that the first row of the file sets up.\<close>

definition positionMap :: "query \<Rightarrow> row \<Rightarrow> (string \<rightharpoonup> nat)" where
  "positionMap q h = s_headerIndex (setupHeader q initialScan h)"

definition displayHeader :: "query \<Rightarrow> row \<Rightarrow> string option list" where
  "displayHeader q h =
     map (s_headerName (setupHeader q initialScan h)) (s_header (setupHeader q initialScan h))"


section \<open>The example of the specification\<close>

text \<open>
  The file and the query of the end-to-end example. \<open>exampleSemver\<close> stands for the
  \<^verbatim>\<open>semver\<close> package on the strings of that example: it answers there as the
  package does, and it coerces every number.
\<close>

definition exampleSemver :: semver_lib where
  "exampleSemver =
     \<lparr>valid = (\<lambda>s. s \<in> set [''1.0.0'', ''2.0.0'', ''1.5.0'', ''1.2.3'']),
      validRange = (\<lambda>s. s = ''>=1.0.0 <2.0.0''),
      coerce = (\<lambda>n. True),
      satisfies = (\<lambda>v r. r = ''>=1.0.0 <2.0.0'' \<and> v \<in> set [''1.0.0'', ''1.5.0'', ''1.2.3''])\<rparr>"

definition exampleRange :: node where
  "exampleRange = Literal (VString ''>=1.0.0 <2.0.0'')"

definition exampleQuery :: query where
  "exampleQuery =
     \<lparr>qtype = ''select'',
      columns = Some [\<lparr>expr = PlainColumn ''name'', as = None\<rparr>],
      table = ''packages'',
      where_node = FunctionExpr ''SEMVER'' (ColumnRef ''version'') exampleRange,
      limit = (Some 0, Some 10)\<rparr>"

definition nameIsAlpha :: node where
  "nameIsAlpha = BinaryExpr ''='' (ColumnRef ''name'') (Literal (VString ''alpha''))"

definition versionLikeOne :: node where
  "versionLikeOne = BinaryExpr ''LIKE'' (ColumnRef ''version'') (Literal (VString ''1.%''))"




text \<open>
  Sub-predicates for the combinators: a comparison that is not in the table of
  operations, and the version match of the example, which is a function call.
\<close>

definition idBelowFive :: node where
  "idBelowFive = BinaryExpr ''<'' (ColumnRef ''id'') (Literal (VNumber 5))"

definition versionInRange :: node where
  "versionInRange = FunctionExpr ''SEMVER'' (ColumnRef ''version'') exampleRange"

text \<open>A query without \<^verbatim>\<open>WHERE\<close> and without selection, two rows to the page.\<close>

definition everyRowQuery :: query where
  "everyRowQuery =
     \<lparr>qtype = ''select'', columns = None, table = ''numbers'', where_node = Other,
      limit = (Some 0, Some 2)\<rparr>"

definition exampleHeader :: row where
  "exampleHeader = [''id'', ''name'', ''version'']"

definition exampleRows :: "row list" where
  "exampleRows =
     [[''1'', ''alpha'', ''1.0.0''], [''2'', ''beta'', ''2.0.0''], [''3'', ''gamma'', ''1.5.0'']]"

section \<open>The page count\<close>

lemma toInt32_id: "0 \<le> n \<Longrightarrow> n < 2 ^ 31 \<Longrightarrow> toInt32 n = n"
  by (simp add: toInt32_def)

lemma ceiling_dvd:
  fixes tot lmt :: nat
  assumes "0 < lmt" and "lmt dvd tot"
  shows "\<lceil>real tot / real lmt\<rceil> = int (tot div lmt)"
proof -
  from assms obtain k where k: "tot = lmt * k" by (auto simp: dvd_def)
  with assms show ?thesis by simp
qed

lemma ceiling_not_dvd:
  fixes tot lmt :: nat
  assumes "0 < lmt" and "\<not> lmt dvd tot"
  shows "\<lceil>real tot / real lmt\<rceil> = int (tot div lmt) + 1"
proof -
  let ?d = "tot div lmt" and ?m = "tot mod lmt"
  have m: "0 < ?m" "?m < lmt" using assms by (auto simp: dvd_eq_mod_eq_0)
  have tot: "real tot = real ?d * real lmt + real ?m"
    by (metis mult.commute of_nat_add of_nat_mult div_mult_mod_eq)
  have lo: "real_of_int (int ?d + 1) - 1 < real tot / real lmt"
    using assms(1) m tot by (simp add: field_simps)
  have hi: "real tot / real lmt \<le> real_of_int (int ?d + 1)"
    using assms(1) m tot by (simp add: field_simps)
  show ?thesis using lo hi by (rule ceiling_unique)
qed

lemma pagesOf_ceiling:
  assumes "0 < lmt" and "int (tot div lmt) < 2 ^ 31"
  shows "pagesOf tot lmt = max 1 \<lceil>real tot / real lmt\<rceil>"
proof (cases "lmt dvd tot")
  case True
  with assms show ?thesis by (simp add: pagesOf_def ceiling_dvd)
next
  case False
  with assms show ?thesis by (simp add: pagesOf_def ceiling_not_dvd toInt32_id)
qed

lemma pagesOf_zero_total: "pagesOf 0 lmt = 1"
  by (simp add: pagesOf_def toInt32_def)

lemma pagesOf_zero_limit: "pagesOf tot 0 = 1"
  by (simp add: pagesOf_def toInt32_def)

lemma executeQuery_pages:
  "executeQuery sv q filePath csv = Inr env \<Longrightarrow> pages env = pagesOf (total_matches env) (limitOf q)"
  by (auto simp: executeQuery_def Let_def split: if_splits sum.splits prod.splits)

text \<open>
  The page count of an envelope is the ceiling of \<open>total / limit\<close>, and at least
  one, as long as the integer part of the quotient fits 31 bits.
\<close>

lemma pages_within_32_bits:
  assumes "executeQuery sv q filePath csv = Inr env"
  shows "(0 < limitOf q \<and> int (total_matches env div limitOf q) < 2 ^ 31 \<longrightarrow>
            pages env = max 1 \<lceil>real (total_matches env) / real (limitOf q)\<rceil>) \<and>
         (total_matches env = 0 \<or> limitOf q = 0 \<longrightarrow> pages env = 1)"
  using executeQuery_pages [OF assms]
  by (auto simp: pagesOf_ceiling pagesOf_zero_total pagesOf_zero_limit)

section \<open>The predicate returns its input\<close>

declare callOperation.simps [simp del]
declare executeAndOperation.simps [simp del]
declare executeOrOperation.simps [simp del]

lemma returns_input:
  "callOperation sv operation data h left right = Inr (Some d) \<Longrightarrow> d = data"
  "executeAndOperation sv data h left right = Inr (Some d) \<Longrightarrow> d = data"
  "executeOrOperation sv data h left right = Inr (Some d) \<Longrightarrow> d = data"
  "nodeOperation sv data h n = Inr (Some d) \<Longrightarrow> d = data"
proof (induction sv operation data h left right and sv data h left right
    and sv data h left right and sv data h n
    arbitrary: d and d and d and d
    rule: callOperation_executeAndOperation_executeOrOperation_nodeOperation.induct)
  case (1 sv operation data h left right)
  then show ?case
    by (cases operation)
      (auto simp: callOperation.simps executeNoneOperation_def executeEqualOperation_def
        executeLikeOperation_def executeSemverOperation_def Let_def
        split: if_splits option.splits literal.splits parse_result.splits)
next
  case (2 sv data h left right)
  then show ?case by (auto simp: executeAndOperation.simps split: sum.splits option.splits)
next
  case (3 sv data h left right)
  then show ?case by (auto simp: executeOrOperation.simps split: sum.splits option.splits)
next
  case (4 sv data h operator l r)
  then show ?case by (auto split: sum.splits)
qed simp_all

section \<open>The loop over the rows\<close>

lemma forEachRow_append:
  "forEachRow body (xs @ ys) st =
     (case forEachRow body xs st of Inl e \<Rightarrow> Inl e | Inr st' \<Rightarrow> forEachRow body ys st')"
  by (induction xs arbitrary: st) (auto split: sum.splits)

lemma setupHeader_fields:
  "s_shouldSetupHeader (setupHeader q st h) = False"
  "s_originalHeader (setupHeader q st h) = h"
  "s_total (setupHeader q st h) = s_total st"
  "s_result (setupHeader q st h) = s_result st"
  "s_line (setupHeader q st h) = s_line st"
  by (auto simp: setupHeader_def split: option.splits)

lemma setupHeader_maps:
  "s_headerIndex (setupHeader q st h) = positionMap q h"
  "map (s_headerName (setupHeader q st h)) (s_header (setupHeader q st h)) = displayHeader q h"
  by (auto simp: setupHeader_def positionMap_def displayHeader_def split: option.splits)

lemma loopBody_header:
  "s_shouldSetupHeader st \<Longrightarrow>
   loopBody sv q operation left right lmt start endp st row =
     Inr (setupHeader q (st\<lparr>s_line := s_line st + 1\<rparr>) row)"
  by (simp add: loopBody_def Let_def)

lemma loopBody_mismatch:
  "\<not> s_shouldSetupHeader st \<Longrightarrow> length (s_originalHeader st) \<noteq> length row \<Longrightarrow>
   loopBody sv q operation left right lmt start endp st row =
     Inl (RowShapeMismatch (s_line st + 1))"
  by (simp add: loopBody_def Let_def)

lemma take_drop_snoc:
  "take lmt (drop start (acc @ [d])) =
     (if length (take lmt (drop start acc)) = lmt \<or> length acc < start
      then take lmt (drop start acc) else take lmt (drop start acc) @ [d])"
  by (auto simp: min_def)

lemma loopBody_data:
  assumes "\<not> s_shouldSetupHeader st" and "length (s_originalHeader st) = length row"
    and "\<not> raises sv operation left right (s_originalHeader st) row"
    and "s_total st = length acc" and "s_result st = take lmt (drop start acc)"
  shows "loopBody sv q operation left right lmt start (start + lmt) st row =
     Inr (st\<lparr>s_line := s_line st + 1,
             s_total := length (acc @ filter (accepts sv operation left right (s_originalHeader st)) [row]),
             s_result := take lmt (drop start
               (acc @ filter (accepts sv operation left right (s_originalHeader st)) [row]))\<rparr>)"
proof (cases "callOperation sv operation row (s_originalHeader st) left right")
  case (Inl e)
  with assms(3) show ?thesis by (simp add: raises_def)
next
  case (Inr r)
  show ?thesis
  proof (cases r)
    case None
    with Inr assms show ?thesis
      by (simp add: loopBody_def Let_def accepts_def)
  next
    case (Some d)
    with Inr have d: "d = row" by (auto dest: returns_input(1))
    have acc: "accepts sv operation left right (s_originalHeader st) row"
      using Inr Some by (simp add: accepts_def)
    show ?thesis
      using Inr Some d acc assms
      by (auto simp: loopBody_def Let_def take_drop_snoc min_def)
  qed
qed

lemma scan_data_rows:
  assumes "\<not> s_shouldSetupHeader st" and "s_originalHeader st = h"
    and "wellFormed sv operation left right h rows"
    and "s_total st = length acc" and "s_result st = take lmt (drop start acc)"
  shows "forEachRow (loopBody sv q operation left right lmt start (start + lmt)) rows st =
     Inr (st\<lparr>s_line := s_line st + length rows,
             s_total := length (acc @ filter (accepts sv operation left right h) rows),
             s_result := take lmt (drop start (acc @ filter (accepts sv operation left right h) rows))\<rparr>)"
  using assms
proof (induction rows arbitrary: st acc)
  case Nil
  then show ?case by simp
next
  case (Cons row rows)
  let ?A = "accepts sv operation left right h"
  let ?body = "loopBody sv q operation left right lmt start (start + lmt)"
  define acc' where "acc' = acc @ filter ?A [row]"
  define st' where "st' = st\<lparr>s_line := s_line st + 1, s_total := length acc',
             s_result := take lmt (drop start acc')\<rparr>"
  have row: "length row = length h" "\<not> raises sv operation left right h row"
    and rows: "wellFormed sv operation left right h rows"
    using Cons.prems(3) by (simp_all add: wellFormed_def)
  have step: "?body st row = Inr st'"
    unfolding st'_def acc'_def
    using loopBody_data [of st row sv operation left right acc lmt start q] Cons.prems row
    by simp
  have st': "\<not> s_shouldSetupHeader st'" "s_originalHeader st' = h"
    "s_total st' = length acc'" "s_result st' = take lmt (drop start acc')"
    using Cons.prems by (simp_all add: st'_def)
  have ih: "forEachRow ?body rows st' =
     Inr (st'\<lparr>s_line := s_line st' + length rows,
             s_total := length (acc' @ filter ?A rows),
             s_result := take lmt (drop start (acc' @ filter ?A rows))\<rparr>)"
    using st'(1,2) rows st'(3,4) by (rule Cons.IH)
  have acc: "acc' @ filter ?A rows = acc @ filter ?A (row # rows)"
    by (simp add: acc'_def)
  have "forEachRow ?body (row # rows) st = forEachRow ?body rows st'"
    by (simp add: step)
  also note ih
  finally show ?case
    unfolding acc by (simp add: st'_def)
qed

lemma executeQuery_wellFormed:
  assumes "qtype q = ''select''"
    and "whereOperation (where_node q) = Inr (operation, left, right)"
    and "wellFormed sv operation left right h rows"
  shows "executeQuery sv q filePath (h # rows) =
     Inr \<lparr>source = filePath,
          total_matches = length (filter (accepts sv operation left right h) rows),
          page = offsetOf q + 1,
          pages = pagesOf (length (filter (accepts sv operation left right h) rows)) (limitOf q),
          header = displayHeader q h,
          result = map (projectRow (positionMap q h) h)
                     (take (limitOf q) (drop (offsetOf q * limitOf q)
                        (filter (accepts sv operation left right h) rows)))\<rparr>"
proof -
  let ?body = "loopBody sv q operation left right (limitOf q) (offsetOf q * limitOf q)
                 (offsetOf q * limitOf q + limitOf q)"
  define st1 where "st1 = setupHeader q (initialScan\<lparr>s_line := s_line initialScan + 1\<rparr>) h"
  have first: "?body initialScan h = Inr st1"
    unfolding st1_def by (rule loopBody_header) (simp add: initialScan_def)
  have st1: "\<not> s_shouldSetupHeader st1" "s_originalHeader st1 = h"
    "s_total st1 = length ([] :: row list)"
    "s_result st1 = take (limitOf q) (drop (offsetOf q * limitOf q) [])"
    by (simp_all add: st1_def setupHeader_fields initialScan_def)
  have maps: "s_headerIndex st1 = positionMap q h"
    "map (s_headerName st1) (s_header st1) = displayHeader q h"
    by (simp_all add: st1_def setupHeader_maps)
  have loop: "forEachRow ?body (h # rows) initialScan =
     Inr (st1\<lparr>s_line := s_line st1 + length rows,
             s_total := length ([] @ filter (accepts sv operation left right h) rows),
             s_result := take (limitOf q) (drop (offsetOf q * limitOf q)
                ([] @ filter (accepts sv operation left right h) rows))\<rparr>)"
    using scan_data_rows [OF st1(1,2) assms(3) st1(3,4), of q] by (simp add: first)
  show ?thesis
    using assms(1,2) maps st1(2) by (simp add: executeQuery_def Let_def loop del: forEachRow.simps)
qed

lemma executeQuery_mismatch:
  assumes "qtype q = ''select''"
    and "whereOperation (where_node q) = Inr (operation, left, right)"
    and "wellFormed sv operation left right h pre"
    and "length bad \<noteq> length h"
  shows "executeQuery sv q filePath (h # pre @ bad # post) =
     Inl (RowShapeMismatch (length pre + 2))"
proof -
  let ?body = "loopBody sv q operation left right (limitOf q) (offsetOf q * limitOf q)
                 (offsetOf q * limitOf q + limitOf q)"
  define st1 where "st1 = setupHeader q (initialScan\<lparr>s_line := s_line initialScan + 1\<rparr>) h"
  have first: "?body initialScan h = Inr st1"
    unfolding st1_def by (rule loopBody_header) (simp add: initialScan_def)
  have st1: "\<not> s_shouldSetupHeader st1" "s_originalHeader st1 = h"
    "s_total st1 = length ([] :: row list)"
    "s_result st1 = take (limitOf q) (drop (offsetOf q * limitOf q) [])"
    by (simp_all add: st1_def setupHeader_fields initialScan_def)
  have line1: "s_line st1 = 1"
    by (simp add: st1_def setupHeader_fields initialScan_def)
  define st2 where "st2 = st1\<lparr>s_line := s_line st1 + length pre,
             s_total := length ([] @ filter (accepts sv operation left right h) pre),
             s_result := take (limitOf q) (drop (offsetOf q * limitOf q)
                ([] @ filter (accepts sv operation left right h) pre))\<rparr>"
  have pre: "forEachRow ?body pre st1 = Inr st2"
    unfolding st2_def by (rule scan_data_rows [OF st1(1,2) assms(3) st1(3,4)])
  have st2: "\<not> s_shouldSetupHeader st2" "length (s_originalHeader st2) \<noteq> length bad"
    "s_line st2 = 1 + length pre"
    using st1(1,2) assms(4) line1 by (simp_all add: st2_def)
  have bad: "?body st2 bad = Inl (RowShapeMismatch (s_line st2 + 1))"
    using st2(1,2) by (rule loopBody_mismatch)
  have "forEachRow ?body (h # pre @ bad # post) initialScan = Inl (RowShapeMismatch (length pre + 2))"
    using first pre bad st2(3) by (simp add: forEachRow_append)
  then show ?thesis
    using assms(1,2) by (simp add: executeQuery_def Let_def del: forEachRow.simps)
qed


lemma semver_cases:
  "left \<noteq> Undefined \<Longrightarrow> right \<noteq> Undefined \<Longrightarrow>
   executeSemverOperation sv data h left right =
     (if \<not> validField sv (fieldUnder data h left) then Inr None
      else if invalidOperand sv (value_of right)
      then Inl (InvalidVersionOperand (string_of_value (value_of right)))
      else if satisfies sv (string_of_field (fieldUnder data h left)) (string_of_value (value_of right))
      then Inr (Some data) else Inr None)"
  by (auto simp: executeSemverOperation_def Let_def validField_def fieldUnder_def
      invalidOperand_def string_of_field_def split: option.splits literal.splits)

lemma executeQuery_raises:
  assumes "qtype q = ''select''"
    and "whereOperation (where_node q) = Inr (operation, left, right)"
    and "wellFormed sv operation left right h pre"
    and "length bad = length h"
    and "callOperation sv operation bad h left right = Inl e"
  shows "executeQuery sv q filePath (h # pre @ bad # post) = Inl e"
proof -
  let ?body = "loopBody sv q operation left right (limitOf q) (offsetOf q * limitOf q)
                 (offsetOf q * limitOf q + limitOf q)"
  define st1 where "st1 = setupHeader q (initialScan\<lparr>s_line := s_line initialScan + 1\<rparr>) h"
  have first: "?body initialScan h = Inr st1"
    unfolding st1_def by (rule loopBody_header) (simp add: initialScan_def)
  have st1: "\<not> s_shouldSetupHeader st1" "s_originalHeader st1 = h"
    "s_total st1 = length ([] :: row list)"
    "s_result st1 = take (limitOf q) (drop (offsetOf q * limitOf q) [])"
    by (simp_all add: st1_def setupHeader_fields initialScan_def)
  define st2 where "st2 = st1\<lparr>s_line := s_line st1 + length pre,
             s_total := length ([] @ filter (accepts sv operation left right h) pre),
             s_result := take (limitOf q) (drop (offsetOf q * limitOf q)
                ([] @ filter (accepts sv operation left right h) pre))\<rparr>"
  have pre: "forEachRow ?body pre st1 = Inr st2"
    unfolding st2_def by (rule scan_data_rows [OF st1(1,2) assms(3) st1(3,4)])
  have st2: "\<not> s_shouldSetupHeader st2" "s_originalHeader st2 = h"
    using st1(1,2) by (simp_all add: st2_def)
  have bad: "?body st2 bad = Inl e"
    using st2 assms(4,5) by (simp add: loopBody_def Let_def)
  have "forEachRow ?body (h # pre @ bad # post) initialScan = Inl e"
    using first pre bad by (simp add: forEachRow_append)
  then show ?thesis
    using assms(1,2) by (simp add: executeQuery_def Let_def del: forEachRow.simps)
qed

section \<open>Reading an integer\<close>

lemma of_char_digit_char: "d < 10 \<Longrightarrow> of_char (digit_char d) = 48 + d"
  by (simp add: digit_char_def)

lemma digit_char_props:
  assumes "d < 10"
  shows "is_digit (digit_char d)" and "digit_value (digit_char d) = int d"
    and "\<not> is_white_space (digit_char d)" and "digit_char d \<noteq> CHR ''+''" and "digit_char d \<noteq> CHR ''-''"
proof -
  note oc = of_char_digit_char [OF assms]
  show "is_digit (digit_char d)" using assms by (simp add: is_digit_def oc)
  show "digit_value (digit_char d) = int d" by (simp add: digit_value_def oc)
  show "\<not> is_white_space (digit_char d)" using assms by (auto simp: is_white_space_def oc)
  show "digit_char d \<noteq> CHR ''+''"
  proof
    assume "digit_char d = CHR ''+''"
    then have "(of_char (digit_char d) :: nat) = of_char (CHR ''+'')" by simp
    then show False by (simp add: oc)
  qed
  show "digit_char d \<noteq> CHR ''-''"
  proof
    assume "digit_char d = CHR ''-''"
    then have "(of_char (digit_char d) :: nat) = of_char (CHR ''-'')" by simp
    then show False by (simp add: oc)
  qed
qed

lemma digits_value_snoc: "digits_value (ds @ [c]) = 10 * digits_value ds + digit_value c"
  by (simp add: digits_value_def)

lemma string_of_nat_digits: "c \<in> set (string_of_nat n) \<Longrightarrow> is_digit c"
proof (induction n arbitrary: c rule: string_of_nat.induct)
  case (1 n)
  show ?case
  proof (cases "n < 10")
    case True
    with "1.prems" show ?thesis
      by (subst (asm) string_of_nat.simps) (simp add: digit_char_props)
  next
    case False
    with "1.prems" have "c \<in> set (string_of_nat (n div 10)) \<or> c = digit_char (n mod 10)"
      by (subst (asm) string_of_nat.simps) auto
    with False "1.IH" show ?thesis by (auto simp: digit_char_props)
  qed
qed

lemma string_of_nat_value: "digits_value (string_of_nat n) = int n"
proof (induction n rule: string_of_nat.induct)
  case (1 n)
  show ?case
  proof (cases "n < 10")
    case True
    then show ?thesis
      by (subst string_of_nat.simps) (simp add: digits_value_def digit_char_props)
  next
    case False
    then have "digits_value (string_of_nat n) =
        10 * digits_value (string_of_nat (n div 10)) + digit_value (digit_char (n mod 10))"
      by (subst string_of_nat.simps) (simp add: digits_value_snoc)
    also have "\<dots> = 10 * int (n div 10) + int (n mod 10)"
      using "1.IH" False by (simp add: digit_char_props)
    also have "\<dots> = int n" by (simp add: zdiv_int zmod_int)
    finally show ?thesis .
  qed
qed

lemma string_of_nat_nonempty: "string_of_nat n \<noteq> []"
  by (subst string_of_nat.simps) simp

lemma digits_value_zeros: "digits_value (replicate k (CHR ''0'') @ ds) = digits_value ds"
proof -
  have "foldl (\<lambda>acc c. 10 * acc + digit_value c) 0 (replicate k (CHR ''0'')) = 0"
    by (induction k) (simp_all add: digit_value_def)
  then show ?thesis by (simp add: digits_value_def)
qed

lemma round_to_double_exact: "n < 2 ^ 53 \<Longrightarrow> round_to_double n = n"
  by (simp add: round_to_double_def)

lemma number_of_int_exact:
  assumes "\<bar>i\<bar> < 2 ^ 53"
  shows "number_of_int i = Finite i"
proof -
  have n: "nat \<bar>i\<bar> < 2 ^ 53" using assms by (simp add: nat_less_iff)
  have big: "\<not> (2 :: nat) ^ 1024 \<le> nat \<bar>i\<bar>"
  proof
    assume "(2 :: nat) ^ 1024 \<le> nat \<bar>i\<bar>"
    with n have "(2 :: nat) ^ 1024 < 2 ^ 53" by simp
    then show False by simp
  qed
  show ?thesis
    using big by (simp add: number_of_int_def round_to_double_exact [OF n] Let_def)
qed

lemma parseInt_digits:
  assumes "ds \<noteq> []" and "\<forall>c \<in> set ds. is_digit c"
  shows "parseInt (Some ds) = number_of_int (digits_value ds)"
proof -
  obtain c cs where ds: "ds = c # cs" using assms(1) by (cases ds) auto
  have c: "is_digit c" using assms(2) ds by simp
  then have nw: "\<not> is_white_space c" and ns: "c \<noteq> CHR ''+''" "c \<noteq> CHR ''-''"
    by (auto simp: is_digit_def is_white_space_def)
  have tw: "takeWhile is_digit ds = ds" using assms(2) by (simp add: takeWhile_eq_all_conv)
  show ?thesis
    using nw ns tw assms(1) by (simp add: parseInt_def string_of_field_def ds Let_def)
qed

lemma parseInt_leading_zeros:
  "parseInt (Some (replicate k (CHR ''0'') @ string_of_nat n)) = number_of_int (int n)"
proof -
  have z: "is_digit (CHR ''0'')" by (simp add: is_digit_def)
  have "parseInt (Some (replicate k (CHR ''0'') @ string_of_nat n)) =
      number_of_int (digits_value (replicate k (CHR ''0'') @ string_of_nat n))"
    by (rule parseInt_digits) (auto simp: string_of_nat_nonempty string_of_nat_digits z)
  then show ?thesis by (simp add: digits_value_zeros string_of_nat_value)
qed

text \<open>The first integer that is not a double, next to a tie: it goes to the even side.\<close>

lemma round_to_double_tie: "round_to_double 9007199254740993 = 9007199254740992"
proof -
  have "bit_length 9007199254740993 = 54"
    by (simp add: bit_length.simps)
  then show ?thesis
    by (simp add: round_to_double_def Let_def)
qed

lemma parseInt_tie: "parseInt (Some ''9007199254740993'') = Finite 9007199254740992"
proof -
  have "digits_value ''9007199254740993'' = 9007199254740993"
    by (simp add: digits_value_def digit_value_def)
  then show ?thesis
    by (simp add: parseInt_def string_of_field_def is_white_space_def is_digit_def Let_def
        number_of_int_def round_to_double_tie)
qed

lemma parseInt_leading_zeros_exact:
  "n < 2 ^ 53 \<Longrightarrow>
   parseInt (Some (replicate k (CHR ''0'') @ string_of_nat n)) = Finite (int n)"
  by (simp add: parseInt_leading_zeros number_of_int_exact)

lemma equal_cases:
  "executeEqualOperation data h (ColumnRef c) (Literal (VNumber n)) =
     Inr (if parseInt (fieldUnder data h (ColumnRef c)) = Finite n then Some data else None)"
  "executeEqualOperation data h (ColumnRef c) (Literal (VBoolean b)) =
     Inr (if (fieldUnder data h (ColumnRef c) = Some ''true'') = b then Some data else None)"
  "executeEqualOperation data h (ColumnRef c) (Literal (VString s)) =
     Inr (if fieldUnder data h (ColumnRef c) = Some s then Some data else None)"
  by (simp_all add: executeEqualOperation_def fieldUnder_def Let_def)

section \<open>The combinators\<close>

lemma and_cases:
  "executeAndOperation sv data h p1 p2 =
     (case nodeOperation sv data h p1 of
        Inl e \<Rightarrow> Inl e
      | Inr None \<Rightarrow> Inr None
      | Inr (Some r) \<Rightarrow> nodeOperation sv data h p2)"
proof (cases "nodeOperation sv data h p1")
  case (Inr r)
  then show ?thesis
    by (cases r) (auto simp: executeAndOperation.simps dest: returns_input(4))
qed (simp add: executeAndOperation.simps)

lemma predicateResult_operator:
  "predicateResult sv data h (BinaryExpr operator l r) =
     nodeOperation sv data h (BinaryExpr operator l r)"
  by (simp add: predicateResult_def split: sum.splits)

lemma matchesAlone_iff:
  "matchesAlone sv data h p \<longleftrightarrow> predicateResult sv data h p = Inr (Some data)"
  by (auto simp: matchesAlone_def predicateResult_def split: sum.splits option.splits
      dest: returns_input(1))

lemma or_cases:
  "executeOrOperation sv data h p1 p2 =
     (case nodeOperation sv data h p1 of
        Inl e \<Rightarrow> Inl e
      | Inr (Some r) \<Rightarrow> Inr (Some r)
      | Inr None \<Rightarrow> nodeOperation sv data h p2)"
  by (simp add: executeOrOperation.simps)

section \<open>The projection\<close>

lemma reduce_record_snoc:
  "reduce_record key val (xs @ [x]) = (reduce_record key val xs)(key x \<mapsto> val x (length xs))"
  by (simp add: reduce_record_def)


lemma reduce_record_distinct:
  "distinct (map key xs) \<Longrightarrow> i < length xs \<Longrightarrow>
   reduce_record key val xs (key (xs ! i)) = Some (val (xs ! i) i)"
proof (induction xs rule: rev_induct)
  case Nil
  then show ?case by simp
next
  case (snoc x xs)
  show ?case
  proof (cases "i < length xs")
    case True
    then have "xs ! i \<in> set xs" by simp
    with snoc.prems(1) have "key (xs ! i) \<noteq> key x" by (auto simp: image_iff)
    with True snoc show ?thesis by (simp add: reduce_record_snoc nth_append)
  next
    case False
    with snoc.prems have "i = length xs" by simp
    then show ?thesis by (simp add: reduce_record_snoc)
  qed
qed


lemma projectRow_Nil: "projectRow hi oh [] = []"
  by (simp add: projectRow_def)

lemma projectRow_snoc:
  "projectRow hi oh (row @ [x]) =
     (case hi (keyAt oh (length row)) of
        None \<Rightarrow> projectRow hi oh row
      | Some position \<Rightarrow> array_set (projectRow hi oh row) position x)"
  by (simp add: projectRow_def split: option.splits)







lemma projectRow_identity:
  "\<forall>i < length row. hi (keyAt oh i) = Some i \<Longrightarrow> projectRow hi oh row = map Some row"
proof (induction row rule: rev_induct)
  case Nil
  then show ?case by (simp add: projectRow_Nil)
next
  case (snoc x row)
  then have "projectRow hi oh row = map Some row" by simp
  moreover have "hi (keyAt oh (length row)) = Some (length row)" using snoc.prems by simp
  ultimately show ?case by (simp add: projectRow_snoc array_set_def)
qed

lemma keyAt_header: "i < length oh \<Longrightarrow> keyAt oh i = oh ! i"
  by (simp add: keyAt_def field_at_def string_of_field_def)

lemma positionMap_all:
  "columns q = None \<Longrightarrow> positionMap q h = reduce_record (\<lambda>c. c) (\<lambda>c index. index) h"
  by (simp add: positionMap_def setupHeader_def)

lemma projectRow_all_columns:
  assumes "columns q = None" and "distinct h" and "length row = length h"
  shows "projectRow (positionMap q h) h row = map Some row"
proof (rule projectRow_identity, intro allI impI)
  fix i assume "i < length row"
  then have i: "i < length h" using assms(3) by simp
  have "reduce_record (\<lambda>c. c) (\<lambda>c index. index) h (h ! i) = Some i"
    using reduce_record_distinct [of "\<lambda>c. c" h i "\<lambda>c index. index"] assms(2) i by simp
  then show "positionMap q h (keyAt h i) = Some i"
    using assms(1) i by (simp add: positionMap_all keyAt_header)
qed







lemma window_rows:
  assumes "wellFormed sv operation left right h rows"
    and "row \<in> set (take n (drop m (filter P rows)))"
  shows "length row = length h"
proof -
  from assms(2) have "row \<in> set rows"
    by (meson in_set_takeD in_set_dropD filter_is_subset subsetD)
  with assms(1) show ?thesis by (simp add: wellFormed_def list_all_iff)
qed

section \<open>Patterns without syntax characters\<close>

lemma parse_plain:
  "\<forall>c \<in> set body. \<not> is_special c \<Longrightarrow>
   parse_regex st alts ts (escape_dots body @ rest) =
     parse_regex st alts (rev (map (\<lambda>c. (Chr c, Atom)) body) @ ts) rest"
proof (induction body arbitrary: ts)
  case Nil
  then show ?case by (simp add: escape_dots_def)
next
  case (Cons c body)
  have ih: "parse_regex st alts ts' (escape_dots body @ rest) =
     parse_regex st alts (rev (map (\<lambda>c. (Chr c, Atom)) body) @ ts') rest" for ts'
    using Cons by simp
  have c: "\<not> is_special c" using Cons.prems by simp
  have e: "escape_dots (c # body) = (if c = CHR ''.'' then [CHR 0x5C, CHR ''.''] else [c]) @ escape_dots body"
    by (simp add: escape_dots_def)
  show ?case
  proof (cases "c = CHR ''.''")
    case True
    then show ?thesis
      by (simp add: e is_syntax_char_def ih [simplified escape_dots_def] escape_dots_def)
  next
    case False
    with c show ?thesis
      by (simp add: e is_special_def ih [simplified escape_dots_def] escape_dots_def)
  qed
qed

lemma seq_regex_plain:
  "seq_regex (rev (map (\<lambda>c. (Chr c, Atom)) body)) = literal_regex body"
  by (induction body) (simp_all add: seq_regex_def)

lemma hd_search_not_question:
  assumes "\<forall>c \<in> set body. \<not> is_special c"
  shows "\<not> (escape_dots body @ CHR '')'' # rest \<noteq> [] \<and> hd (escape_dots body @ CHR '')'' # rest) = CHR ''?'')"
proof (cases body)
  case Nil
  then show ?thesis by (simp add: escape_dots_def)
next
  case (Cons c cs)
  with assms have "\<not> is_special c" by simp
  then have "c \<noteq> CHR ''?''" by (auto simp: is_special_def)
  with Cons show ?thesis by (simp add: escape_dots_def)
qed

lemma RegExp_middle:
  assumes "\<forall>c \<in> set body. \<not> is_special c"
  shows "RegExp (''^.*('' @ escape_dots body @ '').*$'') =
     Parsed (Seq Bol (Seq (Star AnyChar) (Seq (literal_regex body)
       (Seq (Star AnyChar) (Seq Eol Empty)))))"
proof -
  have "RegExp (''^.*('' @ escape_dots body @ '').*$'') =
      parse_regex [([], [(Star AnyChar, Quantified), (Bol, Assertion)])] [] []
        (escape_dots body @ '').*$'')"
    using hd_search_not_question [OF assms, of "''.*$''"]
    by (simp add: RegExp_def quantify_def)
  also have "\<dots> = parse_regex [([], [(Star AnyChar, Quantified), (Bol, Assertion)])] []
      (rev (map (\<lambda>c. (Chr c, Atom)) body) @ []) '').*$''"
    using assms by (rule parse_plain)
  also have "\<dots> = Parsed (Seq Bol (Seq (Star AnyChar) (Seq (literal_regex body)
       (Seq (Star AnyChar) (Seq Eol Empty)))))"
    by (simp add: quantify_def close_group_def seq_regex_plain) (simp add: seq_regex_def)
  finally show ?thesis .
qed

lemma RegExp_begin:
  assumes "\<forall>c \<in> set body. \<not> is_special c"
  shows "RegExp (''^.*('' @ escape_dots body @ '')$'') =
     Parsed (Seq Bol (Seq (Star AnyChar) (Seq (literal_regex body) (Seq Eol Empty))))"
proof -
  have "RegExp (''^.*('' @ escape_dots body @ '')$'') =
      parse_regex [([], [(Star AnyChar, Quantified), (Bol, Assertion)])] [] []
        (escape_dots body @ '')$'')"
    using hd_search_not_question [OF assms, of "''$''"]
    by (simp add: RegExp_def quantify_def)
  also have "\<dots> = parse_regex [([], [(Star AnyChar, Quantified), (Bol, Assertion)])] []
      (rev (map (\<lambda>c. (Chr c, Atom)) body) @ []) '')$''"
    using assms by (rule parse_plain)
  also have "\<dots> = Parsed (Seq Bol (Seq (Star AnyChar) (Seq (literal_regex body) (Seq Eol Empty))))"
    by (simp add: quantify_def close_group_def seq_regex_plain) (simp add: seq_regex_def)
  finally show ?thesis .
qed

lemma RegExp_end:
  assumes "\<forall>c \<in> set body. \<not> is_special c"
  shows "RegExp (''^('' @ escape_dots body @ '').*$'') =
     Parsed (Seq Bol (Seq (literal_regex body) (Seq (Star AnyChar) (Seq Eol Empty))))"
proof -
  have "RegExp (''^('' @ escape_dots body @ '').*$'') =
      parse_regex [([], [(Bol, Assertion)])] [] [] (escape_dots body @ '').*$'')"
    using hd_search_not_question [OF assms, of "''.*$''"]
    by (simp add: RegExp_def quantify_def)
  also have "\<dots> = parse_regex [([], [(Bol, Assertion)])] []
      (rev (map (\<lambda>c. (Chr c, Atom)) body) @ []) '').*$''"
    using assms by (rule parse_plain)
  also have "\<dots> = Parsed (Seq Bol (Seq (literal_regex body) (Seq (Star AnyChar) (Seq Eol Empty))))"
    by (simp add: quantify_def close_group_def seq_regex_plain) (simp add: seq_regex_def)
  finally show ?thesis .
qed

lemma set_ends_literal:
  "set (ends (literal_regex body) s i) = (if occurs_at body s i then {i + length body} else {})"
proof (induction body arbitrary: i)
  case Nil
  then show ?case by (simp add: occurs_at_def)
next
  case (Cons c body)
  have occ: "occurs_at (c # body) s i \<longleftrightarrow> i < length s \<and> s ! i = c \<and> occurs_at body s (Suc i)"
  proof (cases "i < length s")
    case True
    then have "drop i s = s ! i # drop (Suc i) s" by (simp add: Cons_nth_drop_Suc)
    then show ?thesis using True by (auto simp: occurs_at_def)
  next
    case False
    then show ?thesis by (simp add: occurs_at_def)
  qed
  show ?case using Cons.IH [of "Suc i"] by (auto simp: occ)
qed

lemma set_star_step:
  assumes step: "\<And>a. step a = (if a < length s \<and> \<not> is_line_terminator (s ! a) then [Suc a] else [])"
  shows "i \<le> length s \<Longrightarrow>
   set (star_ends step n i) =
     {j. i \<le> j \<and> j \<le> i + n \<and> j \<le> length s \<and> (\<forall>k. i \<le> k \<and> k < j \<longrightarrow> \<not> is_line_terminator (s ! k))}"
proof (induction n arbitrary: i)
  case 0
  then show ?case by auto
next
  case (Suc n)
  let ?R = "\<lambda>i n. {j. i \<le> j \<and> j \<le> i + n \<and> j \<le> length s \<and>
      (\<forall>k. i \<le> k \<and> k < j \<longrightarrow> \<not> is_line_terminator (s ! k))}"
  show ?case
  proof (cases "i < length s \<and> \<not> is_line_terminator (s ! i)")
    case True
    then have "step i = [Suc i]" by (simp add: step)
    then have "set (star_ends step (Suc n) i) = insert i (set (star_ends step n (Suc i)))"
      by simp
    also have "\<dots> = insert i (?R (Suc i) n)"
      using Suc.IH [of "Suc i"] True by simp
    also have "\<dots> = ?R i (Suc n)"
    proof (intro set_eqI iffI)
      fix j assume "j \<in> insert i (?R (Suc i) n)"
      then consider "j = i" | "j \<in> ?R (Suc i) n" by auto
      then show "j \<in> ?R i (Suc n)"
      proof cases
        case 1
        then show ?thesis using Suc.prems by auto
      next
        case 2
        have "\<not> is_line_terminator (s ! k)" if "i \<le> k \<and> k < j" for k
        proof (cases "k = i")
          case True
          then show ?thesis using \<open>i < length s \<and> \<not> is_line_terminator (s ! i)\<close> by simp
        next
          case False
          with that have "Suc i \<le> k \<and> k < j" by simp
          with 2 show ?thesis by simp
        qed
        with 2 show ?thesis by simp
      qed
    next
      fix j assume j: "j \<in> ?R i (Suc n)"
      show "j \<in> insert i (?R (Suc i) n)"
      proof (cases "j = i")
        case False
        with j show ?thesis by auto
      qed simp
    qed
    finally show ?thesis .
  next
    case False
    then have "step i = []" by (simp add: step)
    then have "set (star_ends step (Suc n) i) = {i}" by simp
    also have "\<dots> = ?R i (Suc n)"
    proof (intro set_eqI iffI)
      fix j assume "j \<in> {i}"
      then show "j \<in> ?R i (Suc n)" using Suc.prems by auto
    next
      fix j assume j: "j \<in> ?R i (Suc n)"
      show "j \<in> {i}"
      proof (rule ccontr)
        assume "j \<notin> {i}"
        with j have "i < j" "j \<le> length s" "\<not> is_line_terminator (s ! i)" by auto
        with False show False by auto
      qed
    qed
    finally show ?thesis .
  qed
qed

lemma set_star_any:
  "i \<le> length s \<Longrightarrow>
   set (star_ends (ends AnyChar s) n i) =
     {j. i \<le> j \<and> j \<le> i + n \<and> j \<le> length s \<and> (\<forall>k. i \<le> k \<and> k < j \<longrightarrow> \<not> is_line_terminator (s ! k))}"
  by (rule set_star_step) simp_all

lemma set_ends_star_any:
  assumes "i \<le> length s"
  shows "set (ends (Star AnyChar) s i) =
     {j. i \<le> j \<and> j \<le> length s \<and> no_terminator (take (j - i) (drop i s))}"
proof -
  have nt: "no_terminator (take (j - i) (drop i s)) \<longleftrightarrow>
      (\<forall>k. i \<le> k \<and> k < j \<longrightarrow> \<not> is_line_terminator (s ! k))" if "i \<le> j" "j \<le> length s" for j
  proof
    assume l: "no_terminator (take (j - i) (drop i s))"
    show "\<forall>k. i \<le> k \<and> k < j \<longrightarrow> \<not> is_line_terminator (s ! k)"
    proof (intro allI impI)
      fix k assume k: "i \<le> k \<and> k < j"
      with that have a: "k - i < j - i" "i + (k - i) = k" "i \<le> length s" "j - i \<le> length s - i"
        by auto
      then have "take (j - i) (drop i s) ! (k - i) = s ! k" by (simp add: nth_drop)
      moreover have "k - i < length (take (j - i) (drop i s))" using a by simp
      ultimately show "\<not> is_line_terminator (s ! k)"
        using l by (metis no_terminator_def list_all_length)
    qed
  next
    assume r: "\<forall>k. i \<le> k \<and> k < j \<longrightarrow> \<not> is_line_terminator (s ! k)"
    show "no_terminator (take (j - i) (drop i s))"
      unfolding no_terminator_def list_all_length
    proof (intro allI impI)
      fix m assume "m < length (take (j - i) (drop i s))"
      then have m: "m < j - i" by simp
      then have "take (j - i) (drop i s) ! m = s ! (i + m)" using that by (simp add: nth_drop)
      with r m show "\<not> is_line_terminator (take (j - i) (drop i s) ! m)" by simp
    qed
  qed
  show ?thesis
    using assms nt by (auto simp: set_star_any)
qed

lemma set_ends_Seq:
  "set (ends (Seq a b) s i) = (\<Union>j \<in> set (ends a s i). set (ends b s j))"
  by simp

lemma set_ends_Eol: "set (ends (Seq Eol Empty) s j) = (if j = length s then {j} else {})"
  by simp

lemma regexp_test_Bol: "regexp_test (Seq Bol r) s \<longleftrightarrow> set (ends r s 0) \<noteq> {}"
proof -
  have "ends (Seq Bol r) s i \<noteq> [] \<longleftrightarrow> i = 0 \<and> set (ends r s 0) \<noteq> {}" for i
    by simp
  then show ?thesis
    by (simp only: regexp_test_def list_ex_iff set_upt) auto
qed

lemma occurs_at_bound: "n \<le> length s \<Longrightarrow> occurs_at body s n \<Longrightarrow> n + length body \<le> length s"
proof -
  assume n: "n \<le> length s" and "occurs_at body s n"
  then have "length (take (length body) (drop n s)) = length body"
    by (simp add: occurs_at_def)
  with n show ?thesis by (simp add: min_def split: if_splits)
qed

lemma test_middle:
  "regexp_test (Seq Bol (Seq (Star AnyChar) (Seq (literal_regex body)
       (Seq (Star AnyChar) (Seq Eol Empty))))) s \<longleftrightarrow>
   (\<exists>n \<le> length s. occurs_at body s n \<and> no_terminator (take n s) \<and>
      no_terminator (drop (n + length body) s))"
  (is "?L \<longleftrightarrow> ?R")
proof
  assume ?L
  then obtain j1 j2 j3 where j1: "j1 \<in> set (ends (Star AnyChar) s 0)"
    and j2: "j2 \<in> set (ends (literal_regex body) s j1)"
    and j3: "j3 \<in> set (ends (Star AnyChar) s j2)" and e: "j3 = length s"
    unfolding regexp_test_Bol set_ends_Seq set_ends_Eol by (auto split: if_splits)
  from j1 have a: "j1 \<le> length s" "no_terminator (take j1 s)"
    by (simp_all add: set_ends_star_any del: ends.simps)
  from j2 have b: "occurs_at body s j1" "j2 = j1 + length body"
    by (simp_all add: set_ends_literal del: ends.simps split: if_splits)
  with a have "j2 \<le> length s" by (simp add: occurs_at_bound)
  with j3 e have "no_terminator (drop j2 s)" by (simp add: set_ends_star_any del: ends.simps)
  with a b show ?R by auto
next
  assume ?R
  then obtain n where n: "n \<le> length s" "occurs_at body s n" "no_terminator (take n s)"
    "no_terminator (drop (n + length body) s)" by auto
  then have le: "n + length body \<le> length s" by (simp add: occurs_at_bound)
  have "n \<in> set (ends (Star AnyChar) s 0)" using n by (simp add: set_ends_star_any del: ends.simps)
  moreover have "n + length body \<in> set (ends (literal_regex body) s n)"
    using n by (simp add: set_ends_literal del: ends.simps)
  moreover have "length s \<in> set (ends (Star AnyChar) s (n + length body))"
    using n le by (simp add: set_ends_star_any del: ends.simps)
  moreover have "length s \<in> set (ends (Seq Eol Empty) s (length s))" by simp
  ultimately show ?L
    unfolding regexp_test_Bol set_ends_Seq by blast
qed

lemma test_begin:
  "regexp_test (Seq Bol (Seq (Star AnyChar) (Seq (literal_regex body) (Seq Eol Empty)))) s \<longleftrightarrow>
   length body \<le> length s \<and> occurs_at body s (length s - length body) \<and>
     no_terminator (take (length s - length body) s)"
  (is "?L \<longleftrightarrow> ?R")
proof
  assume ?L
  then obtain j1 j2 where j1: "j1 \<in> set (ends (Star AnyChar) s 0)"
    and j2: "j2 \<in> set (ends (literal_regex body) s j1)" and e: "j2 = length s"
    unfolding regexp_test_Bol set_ends_Seq set_ends_Eol by (auto split: if_splits)
  from j1 have a: "j1 \<le> length s" "no_terminator (take j1 s)"
    by (simp_all add: set_ends_star_any del: ends.simps)
  from j2 have b: "occurs_at body s j1" "j2 = j1 + length body"
    by (simp_all add: set_ends_literal del: ends.simps split: if_splits)
  with e have "j1 = length s - length body" "length body \<le> length s" by simp_all
  with a b show ?R by simp
next
  assume r: ?R
  let ?n = "length s - length body"
  have "?n \<in> set (ends (Star AnyChar) s 0)" using r by (simp add: set_ends_star_any del: ends.simps)
  moreover have "length s \<in> set (ends (literal_regex body) s ?n)"
    using r by (simp add: set_ends_literal del: ends.simps)
  moreover have "length s \<in> set (ends (Seq Eol Empty) s (length s))" by simp
  ultimately show ?L
    unfolding regexp_test_Bol set_ends_Seq by blast
qed

lemma test_end:
  "regexp_test (Seq Bol (Seq (literal_regex body) (Seq (Star AnyChar) (Seq Eol Empty)))) s \<longleftrightarrow>
   occurs_at body s 0 \<and> no_terminator (drop (length body) s)"
  (is "?L \<longleftrightarrow> ?R")
proof
  assume ?L
  then obtain j2 j3 where j2: "j2 \<in> set (ends (literal_regex body) s 0)"
    and j3: "j3 \<in> set (ends (Star AnyChar) s j2)" and e: "j3 = length s"
    unfolding regexp_test_Bol set_ends_Seq set_ends_Eol by (auto split: if_splits)
  from j2 have b: "occurs_at body s 0" "j2 = length body"
    by (simp_all add: set_ends_literal del: ends.simps split: if_splits)
  then have "j2 \<le> length s" using occurs_at_bound [of 0 s body] by simp
  with j3 e b show ?R by (simp add: set_ends_star_any del: ends.simps)
next
  assume r: ?R
  then have le: "length body \<le> length s" using occurs_at_bound [of 0 s body] by simp
  have "length body \<in> set (ends (literal_regex body) s 0)"
    using r by (simp add: set_ends_literal del: ends.simps)
  moreover have "length s \<in> set (ends (Star AnyChar) s (length body))"
    using r le by (simp add: set_ends_star_any del: ends.simps)
  moreover have "length s \<in> set (ends (Seq Eol Empty) s (length s))" by simp
  ultimately show ?L
    unfolding regexp_test_Bol set_ends_Seq by blast
qed

lemma list_ex_upto: "list_ex P [0..<Suc n] \<longleftrightarrow> (\<exists>k \<le> n. P k)"
  by (simp only: list_ex_iff set_upt) (auto simp: less_Suc_eq_le)

lemma like_plain:
  assumes "\<forall>c \<in> set (filter (\<lambda>c. c \<noteq> CHR ''%'') v). \<not> is_special c"
    and left: "left \<noteq> Undefined"
  shows "executeLikeOperation data h left (Literal (VString v)) =
     Inr (if likeMatches v (string_of_field (fieldUnder data h left)) then Some data else None)"
proof -
  have r: "RegExp (''^.*('' @ search_of v @ '').*$'') =
      Parsed (Seq Bol (Seq (Star AnyChar) (Seq (literal_regex (filter (\<lambda>c. c \<noteq> CHR ''%'') v))
        (Seq (Star AnyChar) (Seq Eol Empty)))))"
    "RegExp (''^.*('' @ search_of v @ '')$'') =
      Parsed (Seq Bol (Seq (Star AnyChar) (Seq (literal_regex (filter (\<lambda>c. c \<noteq> CHR ''%'') v))
        (Seq Eol Empty))))"
    "RegExp (''^('' @ search_of v @ '').*$'') =
      Parsed (Seq Bol (Seq (literal_regex (filter (\<lambda>c. c \<noteq> CHR ''%'') v))
        (Seq (Star AnyChar) (Seq Eol Empty))))"
    unfolding search_of_def
    by (rule RegExp_middle [OF assms(1)] RegExp_begin [OF assms(1)] RegExp_end [OF assms(1)])+
  note r' = r [simplified]
  consider (mid) "startsWith v ''%''" "endsWith v ''%''"
    | (beg) "startsWith v ''%''" "\<not> endsWith v ''%''"
    | (en) "\<not> startsWith v ''%''" "endsWith v ''%''"
    | (none) "\<not> startsWith v ''%''" "\<not> endsWith v ''%''"
    by blast
  then show ?thesis
  proof cases
    case mid
    with left show ?thesis
      by (auto simp add: executeLikeOperation_def Let_def r' likeMatches_def list_ex_upto
          test_middle fieldUnder_def simp del: upt_Suc ends.simps)
  next
    case beg
    with left show ?thesis
      by (auto simp add: executeLikeOperation_def Let_def r' likeMatches_def list_ex_upto
          test_begin fieldUnder_def simp del: upt_Suc ends.simps)
  next
    case en
    with left show ?thesis
      by (auto simp add: executeLikeOperation_def Let_def r' likeMatches_def list_ex_upto
          test_end fieldUnder_def simp del: upt_Suc ends.simps)
  next
    case none
    with left show ?thesis
      by (simp add: executeLikeOperation_def Let_def likeMatches_def)
  qed
qed

lemma no_terminator_parts:
  "no_terminator f \<Longrightarrow> no_terminator (take n f)"
  "no_terminator f \<Longrightarrow> no_terminator (drop n f)"
  by (auto simp: no_terminator_def list_all_iff dest: in_set_takeD in_set_dropD)

lemma endsWith_occurs:
  "endsWith f body \<longleftrightarrow> length body \<le> length f \<and> occurs_at body f (length f - length body)"
  by (auto simp: endsWith_def occurs_at_def)

lemma likeMatches_spec:
  assumes "no_terminator f"
  shows "likeMatches v f = specLike v f"
  using assms
  by (auto simp add: likeMatches_def specLike_def Let_def contains_text_def endsWith_occurs
      startsWith_def occurs_at_def no_terminator_parts list_ex_iff simp del: upt_Suc)

section \<open>The example, evaluated\<close>

lemma example_select: "qtype exampleQuery = ''select''"
  by (simp add: exampleQuery_def)

lemma example_where:
  "whereOperation (where_node exampleQuery) =
     Inr (ExecuteSemver, ColumnRef ''version'', exampleRange)"
  by (simp add: exampleQuery_def getOperation_def SQLOperations_def)

lemma example_wellFormed:
  "wellFormed exampleSemver ExecuteSemver (ColumnRef ''version'') exampleRange
     exampleHeader exampleRows"
  by code_simp

lemma example_accepted:
  "filter (accepts exampleSemver ExecuteSemver (ColumnRef ''version'') exampleRange exampleHeader)
     exampleRows = [[''1'', ''alpha'', ''1.0.0''], [''3'', ''gamma'', ''1.5.0'']]"
  by code_simp

lemma example_run:
  "executeQuery exampleSemver exampleQuery ''packages.csv'' (exampleHeader # exampleRows) =
     Inr \<lparr>source = ''packages.csv'', total_matches = 2, page = 1, pages = 1,
          header = [Some ''name''], result = [[Some ''alpha''], [Some ''gamma'']]\<rparr>"
  by code_simp


lemma everyRow_run:
  "\<exists>env. executeQuery sv everyRowQuery filePath ([''n''] # replicate n [''7'']) = Inr env \<and>
     total_matches env = n \<and> pages env = pagesOf n 2"
proof -
  have s: "qtype everyRowQuery = ''select''" by (simp add: everyRowQuery_def)
  have w: "whereOperation (where_node everyRowQuery) = Inr (ExecuteNone, Undefined, Undefined)"
    by (simp add: everyRowQuery_def getOperation_def SQLOperations_def)
  have a: "accepts sv ExecuteNone Undefined Undefined [''n''] row" for row
    by (simp add: accepts_def callOperation.simps executeNoneOperation_def)
  have f: "wellFormed sv ExecuteNone Undefined Undefined [''n''] (replicate n [''7''])"
    by (simp add: wellFormed_def list_all_iff raises_def callOperation.simps
        executeNoneOperation_def)
  have l: "limitOf everyRowQuery = 2" by (simp add: limitOf_def everyRowQuery_def)
  show ?thesis
    unfolding executeQuery_wellFormed [OF s w f] by (simp add: a l)
qed

section \<open>Claims on the pagination\<close>

text \<open>
  C1. For a well-formed file the query returns an envelope whose rows are the
  accepted rows of ranks \<open>offset * limit\<close> up to \<open>offset * limit + limit\<close>
  (excluded), counted from zero among all accepted rows, in the order of the
  stream; each of them has gone through the projection, which leaves a row as
  it is when there is no selection and the header names differ. This is what
  the discard test of the loop computes.
\<close>

theorem page_window:
  assumes "qtype q = ''select''"
    and "whereOperation (where_node q) = Inr (operation, left, right)"
    and "wellFormed sv operation left right h rows"
  shows "\<exists>env. executeQuery sv q filePath (h # rows) = Inr env \<and>
     result env = map (projectRow (positionMap q h) h)
       (take (limitOf q) (drop (offsetOf q * limitOf q)
          (filter (accepts sv operation left right h) rows))) \<and>
     (columns q = None \<and> distinct h \<longrightarrow>
        result env = map (map Some)
          (take (limitOf q) (drop (offsetOf q * limitOf q)
             (filter (accepts sv operation left right h) rows))))"
proof -
  let ?w = "take (limitOf q) (drop (offsetOf q * limitOf q)
             (filter (accepts sv operation left right h) rows))"
  have "columns q = None \<and> distinct h \<longrightarrow>
      map (projectRow (positionMap q h) h) ?w = map (map Some) ?w"
    using window_rows [OF assms(3)] by (auto intro!: projectRow_all_columns)
  then show ?thesis
    by (simp add: executeQuery_wellFormed [OF assms])
qed

theorem page_window_witness:
  "\<exists>env. executeQuery exampleSemver (exampleQuery\<lparr>columns := None, limit := (Some 1, Some 1)\<rparr>)
            ''packages.csv'' (exampleHeader # exampleRows) = Inr env \<and>
          result env = [[Some ''3'', Some ''gamma'', Some ''1.5.0'']]"
proof -
  let ?q = "exampleQuery\<lparr>columns := None, limit := (Some 1, Some 1)\<rparr>"
  have s: "qtype ?q = ''select''" by (simp add: exampleQuery_def)
  have w: "whereOperation (where_node ?q) =
      Inr (ExecuteSemver, ColumnRef ''version'', exampleRange)"
    using example_where by simp
  have l: "limitOf ?q = 1" "offsetOf ?q = 1" "columns ?q = None" "distinct exampleHeader"
    by (simp_all add: limitOf_def offsetOf_def exampleHeader_def)
  show ?thesis
    using page_window [OF s w example_wellFormed, of "''packages.csv''"] l
    by (auto simp: example_accepted)
qed

text \<open>
  C2. For a well-formed file, whatever the limit and the offset of the query, the
  query returns an envelope, and its total is the number of data rows that the
  predicate accepts: the whole stream is scanned and every accepted row counted.
\<close>

theorem total_counts_every_match:
  assumes "qtype q = ''select''"
    and "whereOperation (where_node q) = Inr (operation, left, right)"
    and "wellFormed sv operation left right h rows"
  shows "\<exists>env. executeQuery sv (q\<lparr>limit := lo\<rparr>) filePath (h # rows) = Inr env \<and>
           total_matches env = length (filter (accepts sv operation left right h) rows)"
  using executeQuery_wellFormed [of "q\<lparr>limit := lo\<rparr>" operation left right sv h rows filePath]
    assms
  by simp

theorem total_counts_every_match_witness:
  "\<exists>env. executeQuery exampleSemver (exampleQuery\<lparr>limit := (Some 1, Some 1)\<rparr>)
            ''packages.csv'' (exampleHeader # exampleRows) = Inr env \<and> total_matches env = 2"
  using total_counts_every_match [OF example_select example_where example_wellFormed,
      of "(Some 1, Some 1)" "''packages.csv''"]
  by (simp add: example_accepted numeral_2_eq_2)

text \<open>
  C3. The page count is not the ceiling of \<open>total / limit\<close> for every query. The
  code rounds the quotient up with \<^verbatim>\<open>(pages | 0) + 1\<close>, and \<^verbatim>\<open>| 0\<close> wraps at 32
  bits: on a file of 4294967297 rows, all of them accepted, two to the page, the
  quotient is 2147483648.5, \<^verbatim>\<open>| 0\<close> gives -2147483648, and the envelope has one
  page where the ceiling is 2147483649.
\<close>

theorem page_count_wraps_at_32_bits:
  "\<exists>env. executeQuery exampleSemver everyRowQuery ''numbers.csv''
            ([''n''] # replicate 4294967297 [''7'']) = Inr env \<and>
          total_matches env = 4294967297 \<and>
          limitOf everyRowQuery = 2 \<and>
          pages env = 1 \<and>
          max 1 \<lceil>real (total_matches env) / real (limitOf everyRowQuery)\<rceil> = 2147483649"
proof -
  obtain env where run: "executeQuery exampleSemver everyRowQuery ''numbers.csv''
        ([''n''] # replicate 4294967297 [''7'']) = Inr env"
    and t: "total_matches env = 4294967297"
    and p: "pages env = pagesOf 4294967297 2"
    using everyRow_run [of exampleSemver "''numbers.csv''" 4294967297] by blast
  have l: "limitOf everyRowQuery = 2"
    by (simp add: limitOf_def everyRowQuery_def)
  have w: "pagesOf 4294967297 2 = 1"
    by (simp add: pagesOf_def toInt32_def)
  have c: "max 1 \<lceil>real (4294967297 :: nat) / real (2 :: nat)\<rceil> = (2147483649 :: int)"
    by simp
  show ?thesis
    using t p l w c by (intro exI [of _ env] conjI run) simp_all
qed

text \<open>
  C9. When the walk reaches a data row whose field count differs from the header's
  (the rows before it are well formed), the query fails with the row-shape error
  that cites the line of that row, the header being line 1. Nothing is returned,
  and the rows after it are not looked at.
\<close>

theorem row_shape_mismatch_is_fatal:
  assumes "qtype q = ''select''"
    and "whereOperation (where_node q) = Inr (operation, left, right)"
    and "wellFormed sv operation left right h pre"
    and "length bad \<noteq> length h"
  shows "executeQuery sv q filePath (h # pre @ bad # post) =
           Inl (RowShapeMismatch (length pre + 2))"
  using assms by (rule executeQuery_mismatch)

theorem row_shape_mismatch_is_fatal_witness:
  "executeQuery exampleSemver exampleQuery ''packages.csv''
     (exampleHeader # exampleRows @ [''4'', ''delta''] # [[''5'', ''eps'', ''1.2.3'']]) =
   Inl (RowShapeMismatch 5)"
proof -
  have bad: "length [''4'', ''delta''] \<noteq> length exampleHeader"
    by (simp add: exampleHeader_def)
  show ?thesis
    using row_shape_mismatch_is_fatal [OF example_select example_where example_wellFormed bad,
        of "''packages.csv''" "[[''5'', ''eps'', ''1.2.3'']]"]
    by (simp add: exampleRows_def)
qed


section \<open>Claims on the predicate evaluator\<close>

text \<open>
  C4. Given its two operands, the version operation tests the field first: a
  field that is no valid version (or is missing) excludes the row, whatever the
  operand. Only then the operand is tested: a string that is no valid range, or
  a number that cannot be coerced, raises the fatal error, which ends the whole
  query at that row. With a valid field and operand the row is returned exactly
  when the field's version satisfies the range.
\<close>

theorem semver_field_then_operand:
  assumes "left \<noteq> Undefined" and "right \<noteq> Undefined"
  shows "(\<not> validField sv (fieldUnder data h left) \<longrightarrow>
      executeSemverOperation sv data h left right = Inr None) \<and>
   (validField sv (fieldUnder data h left) \<and> invalidOperand sv (value_of right) \<longrightarrow>
      executeSemverOperation sv data h left right =
        Inl (InvalidVersionOperand (string_of_value (value_of right))) \<and>
      (qtype q = ''select'' \<and> where_node q = FunctionExpr ''SEMVER'' left right \<and>
       wellFormed sv ExecuteSemver left right h pre \<and> length data = length h \<longrightarrow>
         executeQuery sv q filePath (h # pre @ data # post) =
           Inl (InvalidVersionOperand (string_of_value (value_of right))))) \<and>
   (validField sv (fieldUnder data h left) \<and> \<not> invalidOperand sv (value_of right) \<longrightarrow>
      executeSemverOperation sv data h left right =
        Inr (if satisfies sv (string_of_field (fieldUnder data h left))
                 (string_of_value (value_of right))
             then Some data else None))"
proof -
  note cases = semver_cases [OF assms, of sv data h]
  have "executeQuery sv q filePath (h # pre @ data # post) =
           Inl (InvalidVersionOperand (string_of_value (value_of right)))"
    if a: "validField sv (fieldUnder data h left) \<and> invalidOperand sv (value_of right)"
      and b: "qtype q = ''select'' \<and> where_node q = FunctionExpr ''SEMVER'' left right \<and>
       wellFormed sv ExecuteSemver left right h pre \<and> length data = length h"
  proof -
    from b have w: "whereOperation (where_node q) = Inr (ExecuteSemver, left, right)"
      by (simp add: getOperation_def SQLOperations_def)
    have c: "callOperation sv ExecuteSemver data h left right =
        Inl (InvalidVersionOperand (string_of_value (value_of right)))"
      using a by (simp add: callOperation.simps cases)
    from b show ?thesis
      using executeQuery_raises [OF _ w _ _ c] by blast
  qed
  then show ?thesis by (simp add: cases)
qed

theorem semver_field_then_operand_witness:
  "executeSemverOperation exampleSemver [''9'', ''zeta'', ''not-a-version''] exampleHeader
     (ColumnRef ''version'') (Literal (VString ''not-a-range'')) = Inr None \<and>
   executeQuery exampleSemver
     (exampleQuery\<lparr>where_node :=
        FunctionExpr ''SEMVER'' (ColumnRef ''version'') (Literal (VString ''not-a-range''))\<rparr>)
     ''packages.csv''
     (exampleHeader # [[''9'', ''zeta'', ''not-a-version'']] @ [''1'', ''alpha'', ''1.0.0''] # []) =
     Inl (InvalidVersionOperand ''not-a-range'') \<and>
   executeSemverOperation exampleSemver [''1'', ''alpha'', ''1.2.3''] exampleHeader
     (ColumnRef ''version'') exampleRange = Inr (Some [''1'', ''alpha'', ''1.2.3''])"
proof -
  let ?bad = "Literal (VString ''not-a-range'')"
  let ?q = "exampleQuery\<lparr>where_node := FunctionExpr ''SEMVER'' (ColumnRef ''version'') ?bad\<rparr>"
  have f1: "\<not> validField exampleSemver
      (fieldUnder [''9'', ''zeta'', ''not-a-version''] exampleHeader (ColumnRef ''version''))"
    by code_simp
  have f2: "validField exampleSemver
      (fieldUnder [''1'', ''alpha'', ''1.0.0''] exampleHeader (ColumnRef ''version''))"
    by code_simp
  have o2: "invalidOperand exampleSemver (value_of ?bad)"
    by code_simp
  have q2: "qtype ?q = ''select''" "where_node ?q = FunctionExpr ''SEMVER'' (ColumnRef ''version'') ?bad"
    by (simp_all add: exampleQuery_def)
  have w2: "wellFormed exampleSemver ExecuteSemver (ColumnRef ''version'') ?bad exampleHeader
      [[''9'', ''zeta'', ''not-a-version'']]"
    by code_simp
  have l2: "length [''1'', ''alpha'', ''1.0.0''] = length exampleHeader"
    by (simp add: exampleHeader_def)
  have f3: "validField exampleSemver
      (fieldUnder [''1'', ''alpha'', ''1.2.3''] exampleHeader (ColumnRef ''version''))"
    by code_simp
  have o3: "\<not> invalidOperand exampleSemver (value_of exampleRange)"
    by code_simp
  have s3: "satisfies exampleSemver
      (string_of_field (fieldUnder [''1'', ''alpha'', ''1.2.3''] exampleHeader (ColumnRef ''version'')))
      (string_of_value (value_of exampleRange))"
    by code_simp
  have v2: "string_of_value (value_of ?bad) = ''not-a-range''"
    by (simp add: string_of_value_def)
  have "executeSemverOperation exampleSemver [''9'', ''zeta'', ''not-a-version''] exampleHeader
     (ColumnRef ''version'') ?bad = Inr None"
    using semver_field_then_operand [where left = "ColumnRef ''version''" and right = ?bad
        and sv = exampleSemver and data = "[''9'', ''zeta'', ''not-a-version'']"
        and h = exampleHeader] f1 by simp
  moreover have "executeQuery exampleSemver ?q ''packages.csv''
     (exampleHeader # [[''9'', ''zeta'', ''not-a-version'']] @ [''1'', ''alpha'', ''1.0.0''] # []) =
     Inl (InvalidVersionOperand ''not-a-range'')"
    using semver_field_then_operand [where left = "ColumnRef ''version''" and right = ?bad
        and sv = exampleSemver and data = "[''1'', ''alpha'', ''1.0.0'']"
        and h = exampleHeader and q = ?q and pre = "[[''9'', ''zeta'', ''not-a-version'']]"
        and filePath = "''packages.csv''" and post = "[]"] f2 o2 q2 w2 l2 v2 by simp
  moreover have "executeSemverOperation exampleSemver [''1'', ''alpha'', ''1.2.3''] exampleHeader
     (ColumnRef ''version'') exampleRange = Inr (Some [''1'', ''alpha'', ''1.2.3''])"
    using semver_field_then_operand [where left = "ColumnRef ''version''"
        and right = exampleRange and sv = exampleSemver
        and data = "[''1'', ''alpha'', ''1.2.3'']" and h = exampleHeader] f3 o3 s3
    by (simp add: exampleRange_def)
  ultimately show ?thesis by blast
qed

text \<open>
  C6. The equality operation converts the field to the type of the literal. For a
  number the field goes through \<^verbatim>\<open>parseInt(_, 10)\<close> and the row matches exactly
  when that gives the literal: so the decimal digits of a number match it with
  any count of zeros before them, \<^verbatim>\<open>5\<close> matching \<^verbatim>\<open>5\<close> and \<^verbatim>\<open>05\<close>. What
  \<^verbatim>\<open>parseInt\<close> gives is the double nearest to the integer that the digits
  write, which is that integer below \<open>2 ^ 53\<close>. For the literal \<^verbatim>\<open>true\<close> the row
  matches exactly when the field is the string \<^verbatim>\<open>true\<close>. A string literal is
  compared with the field as it is. Every other outcome is the absent row.
\<close>

theorem equality_coerces_field:
  "executeEqualOperation data h (ColumnRef c) (Literal (VNumber n)) =
     Inr (if parseInt (fieldUnder data h (ColumnRef c)) = Finite n then Some data else None) \<and>
   executeEqualOperation data h (ColumnRef c) (Literal (VBoolean True)) =
     Inr (if fieldUnder data h (ColumnRef c) = Some ''true'' then Some data else None) \<and>
   executeEqualOperation data h (ColumnRef c) (Literal (VString s)) =
     Inr (if fieldUnder data h (ColumnRef c) = Some s then Some data else None) \<and>
   parseInt (Some (replicate k (CHR ''0'') @ string_of_nat m)) = number_of_int (int m) \<and>
   (m < 2 ^ 53 \<longrightarrow> number_of_int (int m) = Finite (int m)) \<and>
   parseInt (Some ''5'') = Finite 5 \<and> parseInt (Some ''05'') = Finite 5"
proof -
  have "parseInt (Some (replicate 0 (CHR ''0'') @ string_of_nat 5)) = Finite (int 5)"
    "parseInt (Some (replicate 1 (CHR ''0'') @ string_of_nat 5)) = Finite (int 5)"
    by (rule parseInt_leading_zeros_exact, simp)+
  moreover have "string_of_nat 5 = ''5''"
    by code_simp
  ultimately have "parseInt (Some ''5'') = Finite 5" "parseInt (Some ''05'') = Finite 5"
    by simp_all
  then show ?thesis
    by (simp add: equal_cases parseInt_leading_zeros number_of_int_exact)
qed

theorem equality_coerces_field_witness:
  "executeEqualOperation [''05'', ''True''] [''n'', ''flag''] (ColumnRef ''n'') (Literal (VNumber 5))
     = Inr (Some [''05'', ''True'']) \<and>
   executeEqualOperation [''05'', ''True''] [''n'', ''flag''] (ColumnRef ''flag'')
     (Literal (VBoolean True)) = Inr None \<and>
   executeEqualOperation [''05'', ''1''] [''n'', ''flag''] (ColumnRef ''flag'')
     (Literal (VBoolean True)) = Inr None \<and>
   executeEqualOperation [''05'', ''true''] [''n'', ''flag''] (ColumnRef ''flag'')
     (Literal (VBoolean True)) = Inr (Some [''05'', ''true'']) \<and>
   executeEqualOperation [''9007199254740993''] [''n''] (ColumnRef ''n'')
     (Literal (VNumber 9007199254740992)) = Inr (Some [''9007199254740993''])"
proof -
  have f: "fieldUnder [''05'', ''True''] [''n'', ''flag''] (ColumnRef ''n'') = Some ''05''"
    "fieldUnder [''05'', ''True''] [''n'', ''flag''] (ColumnRef ''flag'') = Some ''True''"
    "fieldUnder [''05'', ''1''] [''n'', ''flag''] (ColumnRef ''flag'') = Some ''1''"
    "fieldUnder [''05'', ''true''] [''n'', ''flag''] (ColumnRef ''flag'') = Some ''true''"
    "fieldUnder [''9007199254740993''] [''n''] (ColumnRef ''n'') = Some ''9007199254740993''"
    by (simp_all add: fieldUnder_def findIndex_def field_at_def)
  note big = parseInt_tie
  show ?thesis
    using equality_coerces_field [of "[''05'', ''True'']" "[''n'', ''flag'']" "''n''" 5]
      equality_coerces_field [of "[''05'', ''True'']" "[''n'', ''flag'']" "''flag''"]
      equality_coerces_field [of "[''05'', ''1'']" "[''n'', ''flag'']" "''flag''"]
      equality_coerces_field [of "[''05'', ''true'']" "[''n'', ''flag'']" "''flag''"]
      equality_coerces_field [of "[''9007199254740993'']" "[''n'']" "''n''" 9007199254740992]
    by (simp add: f big)
qed

text \<open>
  C7, as the code has it, for two sub-predicates that are nodes with an operator
  (a comparison or a combinator). \<^verbatim>\<open>AND\<close> matches a row exactly when both match
  it alone; the left result, threaded into the right one, is the input row, and
  the right one is not evaluated when the left one is absent. \<^verbatim>\<open>OR\<close> returns
  the left result when the left one matches, and evaluates the right one on the
  original row when the left one is absent: it matches exactly when the left
  one matches, or is absent while the right one matches. A fatal error of the
  left one is the outcome of both combinators.
\<close>

theorem and_or_on_operator_nodes:
  assumes "p1 = BinaryExpr o1 l1 r1" and "p2 = BinaryExpr o2 l2 r2"
  shows "((\<exists>d. executeAndOperation sv data h p1 p2 = Inr (Some d)) \<longleftrightarrow>
            matchesAlone sv data h p1 \<and> matchesAlone sv data h p2) \<and>
     (matchesAlone sv data h p1 \<and> matchesAlone sv data h p2 \<longrightarrow>
        executeAndOperation sv data h p1 p2 = Inr (Some data)) \<and>
     (\<forall>r. predicateResult sv data h p1 = Inr (Some r) \<longrightarrow>
        r = data \<and> executeAndOperation sv data h p1 p2 = predicateResult sv r h p2) \<and>
     (predicateResult sv data h p1 = Inr None \<longrightarrow>
        executeAndOperation sv data h p1 p2 = Inr None) \<and>
     (\<forall>r. predicateResult sv data h p1 = Inr (Some r) \<longrightarrow>
        executeOrOperation sv data h p1 p2 = Inr (Some r)) \<and>
     (predicateResult sv data h p1 = Inr None \<longrightarrow>
        executeOrOperation sv data h p1 p2 = predicateResult sv data h p2) \<and>
     (\<forall>e. predicateResult sv data h p1 = Inl e \<longrightarrow>
        executeAndOperation sv data h p1 p2 = Inl e \<and>
        executeOrOperation sv data h p1 p2 = Inl e) \<and>
     ((\<exists>d. executeOrOperation sv data h p1 p2 = Inr (Some d)) \<longleftrightarrow>
        matchesAlone sv data h p1 \<or>
        predicateResult sv data h p1 = Inr None \<and> matchesAlone sv data h p2)"
proof -
  have n1: "nodeOperation sv d h p1 = predicateResult sv d h p1" for d
    unfolding assms(1) by (rule predicateResult_operator [symmetric])
  have n2: "nodeOperation sv d h p2 = predicateResult sv d h p2" for d
    unfolding assms(2) by (rule predicateResult_operator [symmetric])
  have same: "r = data" if "predicateResult sv data h p1 = Inr (Some r)" for r
    using that by (auto simp: predicateResult_def split: sum.splits dest: returns_input(1))
  have a: "executeAndOperation sv data h p1 p2 =
      (case predicateResult sv data h p1 of
         Inl e \<Rightarrow> Inl e
       | Inr None \<Rightarrow> Inr None
       | Inr (Some r) \<Rightarrow> predicateResult sv data h p2)"
    unfolding and_cases n1 n2 by simp
  have b: "executeOrOperation sv data h p1 p2 =
      (case predicateResult sv data h p1 of
         Inl e \<Rightarrow> Inl e
       | Inr (Some r) \<Rightarrow> Inr (Some r)
       | Inr None \<Rightarrow> predicateResult sv data h p2)"
    unfolding or_cases n1 n2 by simp
  have c1: "(\<exists>d. executeAndOperation sv data h p1 p2 = Inr (Some d)) \<longleftrightarrow>
      matchesAlone sv data h p1 \<and> matchesAlone sv data h p2"
    by (auto simp: a matchesAlone_def split: sum.splits option.splits)
  have c2: "matchesAlone sv data h p1 \<and> matchesAlone sv data h p2 \<longrightarrow>
      executeAndOperation sv data h p1 p2 = Inr (Some data)"
    by (auto simp: a matchesAlone_iff)
  have c3: "\<forall>r. predicateResult sv data h p1 = Inr (Some r) \<longrightarrow>
      r = data \<and> executeAndOperation sv data h p1 p2 = predicateResult sv r h p2"
    using same by (auto simp: a)
  have c4: "predicateResult sv data h p1 = Inr None \<longrightarrow>
      executeAndOperation sv data h p1 p2 = Inr None"
    by (simp add: a)
  have c5: "\<forall>r. predicateResult sv data h p1 = Inr (Some r) \<longrightarrow>
      executeOrOperation sv data h p1 p2 = Inr (Some r)"
    by (simp add: b)
  have c6: "predicateResult sv data h p1 = Inr None \<longrightarrow>
      executeOrOperation sv data h p1 p2 = predicateResult sv data h p2"
    by (simp add: b)
  have c7: "\<forall>e. predicateResult sv data h p1 = Inl e \<longrightarrow>
      executeAndOperation sv data h p1 p2 = Inl e \<and> executeOrOperation sv data h p1 p2 = Inl e"
    by (simp add: a b)
  have c8: "(\<exists>d. executeOrOperation sv data h p1 p2 = Inr (Some d)) \<longleftrightarrow>
      matchesAlone sv data h p1 \<or>
      predicateResult sv data h p1 = Inr None \<and> matchesAlone sv data h p2"
    by (auto simp: b matchesAlone_def split: sum.splits option.splits)
  from c1 c2 c3 c4 c5 c6 c7 c8 show ?thesis by blast
qed

theorem and_or_on_operator_nodes_witness:
  "executeAndOperation exampleSemver [''1'', ''alpha'', ''1.0.0''] exampleHeader
     nameIsAlpha versionLikeOne = Inr (Some [''1'', ''alpha'', ''1.0.0'']) \<and>
   executeOrOperation exampleSemver [''2'', ''beta'', ''1.0.0''] exampleHeader
     nameIsAlpha versionLikeOne = Inr (Some [''2'', ''beta'', ''1.0.0''])"
proof -
  have a: "matchesAlone exampleSemver [''1'', ''alpha'', ''1.0.0''] exampleHeader nameIsAlpha"
    "matchesAlone exampleSemver [''1'', ''alpha'', ''1.0.0''] exampleHeader versionLikeOne"
    by code_simp+
  have b: "predicateResult exampleSemver [''2'', ''beta'', ''1.0.0''] exampleHeader nameIsAlpha
      = Inr None"
    "predicateResult exampleSemver [''2'', ''beta'', ''1.0.0''] exampleHeader versionLikeOne
      = Inr (Some [''2'', ''beta'', ''1.0.0''])"
    by code_simp+
  show ?thesis
    using and_or_on_operator_nodes [of nameIsAlpha "''=''" "ColumnRef ''name''"
        "Literal (VString ''alpha'')" versionLikeOne "''LIKE''" "ColumnRef ''version''"
        "Literal (VString ''1.%'')" exampleSemver "[''1'', ''alpha'', ''1.0.0'']" exampleHeader]
      and_or_on_operator_nodes [of nameIsAlpha "''=''" "ColumnRef ''name''"
        "Literal (VString ''alpha'')" versionLikeOne "''LIKE''" "ColumnRef ''version''"
        "Literal (VString ''1.%'')" exampleSemver "[''2'', ''beta'', ''1.0.0'']" exampleHeader]
      a b
    by (simp add: nameIsAlpha_def versionLikeOne_def)
qed

text \<open>
  The claim as stated fails on two counts. A left sub-predicate that raises a
  fatal error takes \<^verbatim>\<open>OR\<close> with it, whatever the right one does: the comparison
  \<^verbatim>\<open>id < 5\<close> is no operation of the table, and \<^verbatim>\<open>OR\<close> of it and of a predicate
  that matches the row is fatal. And a sub-predicate that is a function call,
  as the version match is, has no \<^verbatim>\<open>operator\<close> for the combinator to look up:
  \<^verbatim>\<open>AND\<close> of the version match and of the same predicate is fatal on a row that
  both match alone.
\<close>

theorem combinator_fatal_counterexample:
  "matchesAlone exampleSemver [''1'', ''alpha'', ''1.0.0''] exampleHeader nameIsAlpha \<and>
   predicateResult exampleSemver [''1'', ''alpha'', ''1.0.0''] exampleHeader idBelowFive
     = Inl (UnsupportedOperator (Some ''<'')) \<and>
   executeOrOperation exampleSemver [''1'', ''alpha'', ''1.0.0''] exampleHeader
     idBelowFive nameIsAlpha = Inl (UnsupportedOperator (Some ''<'')) \<and>
   matchesAlone exampleSemver [''1'', ''alpha'', ''1.0.0''] exampleHeader versionInRange \<and>
   executeAndOperation exampleSemver [''1'', ''alpha'', ''1.0.0''] exampleHeader
     versionInRange nameIsAlpha = Inl (UnsupportedOperator None)"
  by code_simp

section \<open>Claims on the projection\<close>





section \<open>Claims on the pattern match and on missing columns\<close>

text \<open>
  C5. The body of a \<^verbatim>\<open>LIKE\<close> pattern goes into the regular expression with only
  its dots escaped, so any other syntax character of the body keeps its meaning.
  For the pattern \<^verbatim>\<open>%1+1%\<close> the field \<^verbatim>\<open>1+1\<close>, which contains the body, is
  excluded, and the field \<^verbatim>\<open>11\<close>, which does not, is returned; for \<^verbatim>\<open>%c++%\<close>
  the construction of the expression throws. The specification's reading of
  the three patterns is on the last line.
\<close>

theorem like_body_is_a_pattern:
  "executeLikeOperation [''1+1''] [''expr''] (ColumnRef ''expr'') (Literal (VString ''%1+1%''))
     = Inr None \<and>
   executeLikeOperation [''11''] [''expr''] (ColumnRef ''expr'') (Literal (VString ''%1+1%''))
     = Inr (Some [''11'']) \<and>
   executeLikeOperation [''c++''] [''lang''] (ColumnRef ''lang'') (Literal (VString ''%c++%''))
     = Inl SyntaxError \<and>
   specLike ''%1+1%'' ''1+1'' \<and> \<not> specLike ''%1+1%'' ''11'' \<and> specLike ''%c++%'' ''c++''"
  by code_simp

text \<open>
  C10, as the code has it. When the left operand names a column that the header
  does not have, the version operation excludes the row without an error,
  whatever its operand, and the equality with a string or a number excludes it.
  \<^verbatim>\<open>LIKE\<close> tests the text \<^verbatim>\<open>undefined\<close> in place of the field: with a pattern
  whose body has no syntax character the row is returned exactly when that
  text fits the pattern, and no error is raised.
\<close>

theorem missing_column:
  assumes "c \<notin> set h" and "right \<noteq> Undefined"
  shows "executeSemverOperation sv data h (ColumnRef c) right = Inr None \<and>
     executeEqualOperation data h (ColumnRef c) (Literal (VString s)) = Inr None \<and>
     executeEqualOperation data h (ColumnRef c) (Literal (VNumber n)) = Inr None \<and>
     ((\<forall>x \<in> set (filter (\<lambda>x. x \<noteq> CHR ''%'') v). \<not> is_special x) \<longrightarrow>
        executeLikeOperation data h (ColumnRef c) (Literal (VString v)) =
          Inr (if specLike v ''undefined'' then Some data else None))"
proof -
  have "findIndexFrom i (\<lambda>x. Some x = Some c) h = -1" for i
    using assms by (induction h arbitrary: i) auto
  then have f: "fieldUnder data h (ColumnRef c) = None"
    by (simp add: fieldUnder_def findIndex_def field_at_def)
  have p: "parseInt None = NaN"
    by code_simp
  have u: "no_terminator ''undefined''"
    by code_simp
  have "executeSemverOperation sv data h (ColumnRef c) right = Inr None"
    using assms(2) by (simp add: semver_cases f validField_def)
  moreover have "executeEqualOperation data h (ColumnRef c) (Literal (VString s)) = Inr None"
    "executeEqualOperation data h (ColumnRef c) (Literal (VNumber n)) = Inr None"
    by (simp_all add: equal_cases f p)
  moreover have "executeLikeOperation data h (ColumnRef c) (Literal (VString v)) =
          Inr (if specLike v ''undefined'' then Some data else None)"
    if "\<forall>x \<in> set (filter (\<lambda>x. x \<noteq> CHR ''%'') v). \<not> is_special x"
    using like_plain [OF that, where left = "ColumnRef c" and data = data and h = h]
      likeMatches_spec [OF u, of v]
    by (simp add: f string_of_field_def)
  ultimately show ?thesis by blast
qed

theorem missing_column_witness:
  "executeSemverOperation exampleSemver [''1'', ''alpha'', ''1.0.0''] exampleHeader
     (ColumnRef ''owner'') exampleRange = Inr None \<and>
   executeEqualOperation [''1'', ''alpha'', ''1.0.0''] exampleHeader (ColumnRef ''owner'')
     (Literal (VNumber 1)) = Inr None \<and>
   executeLikeOperation [''1'', ''alpha'', ''1.0.0''] exampleHeader (ColumnRef ''owner'')
     (Literal (VString ''%alpha%'')) = Inr None \<and>
   executeLikeOperation [''1'', ''alpha'', ''1.0.0''] exampleHeader (ColumnRef ''owner'')
     (Literal (VString ''un%'')) = Inr (Some [''1'', ''alpha'', ''1.0.0''])"
proof -
  have c: "''owner'' \<notin> set exampleHeader" by (simp add: exampleHeader_def)
  have r: "exampleRange \<noteq> Undefined" by (simp add: exampleRange_def)
  have p: "\<forall>x \<in> set (filter (\<lambda>x. x \<noteq> CHR ''%'') ''%alpha%''). \<not> is_special x"
    "\<forall>x \<in> set (filter (\<lambda>x. x \<noteq> CHR ''%'') ''un%''). \<not> is_special x"
    by (simp_all add: is_special_def)
  have s: "\<not> specLike ''%alpha%'' ''undefined''" "specLike ''un%'' ''undefined''"
    by code_simp+
  show ?thesis
    using missing_column [OF c r, where sv = exampleSemver
        and data = "[''1'', ''alpha'', ''1.0.0'']" and s = "''x''" and n = 1 and v = "''%alpha%''"]
      missing_column [OF c r, where sv = exampleSemver
        and data = "[''1'', ''alpha'', ''1.0.0'']" and s = "''x''" and n = 1 and v = "''un%''"] p s
    by simp
qed

text \<open>
  The claim as stated fails for \<^verbatim>\<open>LIKE\<close>: the pattern \<^verbatim>\<open>%undef%\<close> on a column
  that does not exist returns the row.
\<close>

theorem like_on_missing_column_counterexample:
  "''owner'' \<notin> set exampleHeader \<and>
   executeLikeOperation [''1'', ''alpha'', ''1.0.0''] exampleHeader (ColumnRef ''owner'')
     (Literal (VString ''%undef%'')) = Inr (Some [''1'', ''alpha'', ''1.0.0''])"
  by code_simp

end
